theory Spec2Isabelle
  imports Complex_Main
begin

section \<open>Data model\<close>

text \<open>
  The script \<^verbatim>\<open>Data_preprocessing.py\<close> builds one pandas table per experiment folder:
  it gathers the run files of the folder as columns, puts a row of labels on top,
  subtracts the first run (the background) from the other runs and averages the
  differences. This theory embeds the five functions of the script and one pass of its
  main loop, with the pandas operations they call written out as functions on lists.

  A table cell is a missing value (pandas \<^verbatim>\<open>NaN\<close> / \<^verbatim>\<open>None\<close>), a number or a
  text. Numbers are modelled as exact reals: rounding of the 64-bit floats is abstracted.
\<close>

datatype cell = Missing | Num real | Str string

datatype error = ValueError | TypeError | IndexError | OSError

text \<open>A pandas Series: row labels paired with values, in order.\<close>

type_synonym series = "(int \<times> cell) list"

text \<open>
  A pandas DataFrame: the row labels and the columns in order, each column a name and one
  cell per row label.
\<close>

record dataframe =
  index :: "int list"
  columns :: "(string \<times> cell list) list"

text \<open>pandas keeps every column as long as the index.\<close>

definition rectangular :: "dataframe \<Rightarrow> bool" where
  "rectangular df = list_all (\<lambda>c. length (snd c) = length (index df)) (columns df)"

text \<open>
  Data frames are mutable objects. The main loop passes the object bound to the
  process-wide variable \<^verbatim>\<open>df\<close> to \<^verbatim>\<open>subtract_background\<close>, which also reads
  \<^verbatim>\<open>df\<close> itself: the store makes that sharing explicit.
\<close>

type_synonym ref = nat

type_synonym heap = "ref \<Rightarrow> dataframe"

text \<open>
  The environment: \<^verbatim>\<open>os.listdir\<close> and \<^verbatim>\<open>pandas.read_csv(path, sep="\t", names=["Pixel", "value"])\<close>.
  Both are library calls whose code is outside the script; every result they can give (a
  failure or a value) is a possible value of these fields.
\<close>

record filesystem =
  listdir :: "string \<Rightarrow> error + string list"
  read_csv :: "string \<Rightarrow> error + dataframe"

section \<open>The pandas operations the script uses\<close>

text \<open>\<^verbatim>\<open>frame.iloc[:, j]\<close>: the column at position \<open>j\<close> as a Series.\<close>

definition iloc_col :: "dataframe \<Rightarrow> nat \<Rightarrow> error + series" where
  "iloc_col df j =
     (if j < length (columns df) then Inr (zip (index df) (snd (columns df ! j)))
      else Inl IndexError)"

text \<open>\<^verbatim>\<open>frame.iloc[1:, j]\<close>: the same without the first row.\<close>

definition iloc_rows1_col :: "dataframe \<Rightarrow> nat \<Rightarrow> error + series" where
  "iloc_rows1_col df j =
     (if j < length (columns df) then Inr (drop 1 (zip (index df) (snd (columns df ! j))))
      else Inl IndexError)"

text \<open>
  Assigning a Series to a column aligns it with the frame's row labels: a label the
  Series lacks gets a missing value, labels the frame lacks are dropped. A Series with
  the frame's own index is taken as it is; realigning a Series with a repeated label fails.
\<close>

definition reindex :: "int list \<Rightarrow> series \<Rightarrow> error + cell list" where
  "reindex idx s =
     (if map fst s = idx then Inr (map snd s)
      else if distinct (map fst s)
        then Inr (map (\<lambda>l. case map_of s l of None \<Rightarrow> Missing | Some c \<Rightarrow> c) idx)
      else Inl ValueError)"

text \<open>An existing column name keeps its position and gets the new cells; a new one is appended.\<close>

fun upsert :: "string \<Rightarrow> cell list \<Rightarrow> (string \<times> cell list) list \<Rightarrow> (string \<times> cell list) list" where
  "upsert name vs [] = [(name, vs)]"
| "upsert name vs (c # cs) = (if fst c = name then (name, vs) # cs else c # upsert name vs cs)"

text \<open>\<^verbatim>\<open>frame[name] = series\<close>\<close>

definition setitem :: "dataframe \<Rightarrow> string \<Rightarrow> series \<Rightarrow> error + dataframe" where
  "setitem df name s =
     (case reindex (index df) s of
        Inl e \<Rightarrow> Inl e
      | Inr vs \<Rightarrow> Inr (df\<lparr>columns := upsert name vs (columns df)\<rparr>))"

text \<open>
  \<^verbatim>\<open>frame.loc[label, :] = row\<close> with a list: the list needs one value per column. A
  label the index lacks appends a row; a label it has overwrites the rows of that label.
\<close>

definition loc_setitem_row :: "dataframe \<Rightarrow> int \<Rightarrow> cell list \<Rightarrow> error + dataframe" where
  "loc_setitem_row df label row =
     (if length row \<noteq> length (columns df) then Inl ValueError
      else if label \<in> set (index df) then
        Inr (df\<lparr>columns :=
               map2 (\<lambda>c v. (fst c, map2 (\<lambda>l old. if l = label then v else old) (index df) (snd c)))
                 (columns df) row\<rparr>)
      else
        Inr \<lparr>index = index df @ [label],
             columns = map2 (\<lambda>c v. (fst c, snd c @ [v])) (columns df) row\<rparr>)"

text \<open>\<^verbatim>\<open>frame.sort_index(inplace=True)\<close>: the rows in the order of their labels.\<close>

definition sort_index :: "dataframe \<Rightarrow> dataframe" where
  "sort_index df =
     \<lparr>index = sort (index df),
      columns = map (\<lambda>c. (fst c, map snd (sort_key fst (zip (index df) (snd c))))) (columns df)\<rparr>"

text \<open>
  Subtraction of two cells: a missing operand gives a missing result, two numbers their
  difference, and a text operand beside a present value raises.
\<close>

fun cell_sub :: "cell \<Rightarrow> cell \<Rightarrow> error + cell" where
  "cell_sub Missing _ = Inr Missing"
| "cell_sub _ Missing = Inr Missing"
| "cell_sub (Num a) (Num b) = Inr (Num (a - b))"
| "cell_sub _ _ = Inl TypeError"

fun sub_cells :: "cell list \<Rightarrow> cell list \<Rightarrow> error + cell list" where
  "sub_cells (a # as) (b # bs) =
     (case cell_sub a b of
        Inl e \<Rightarrow> Inl e
      | Inr c \<Rightarrow> (case sub_cells as bs of Inl e \<Rightarrow> Inl e | Inr cs \<Rightarrow> Inr (c # cs)))"
| "sub_cells _ _ = Inr []"

text \<open>
  \<^verbatim>\<open>s1 - s2\<close> for two Series cut from one frame by the same row slice: their labels
  coincide, and the values are subtracted position by position.
\<close>

definition series_sub :: "series \<Rightarrow> series \<Rightarrow> error + series" where
  "series_sub s1 s2 =
     (case sub_cells (map snd s1) (map snd s2) of
        Inl e \<Rightarrow> Inl e
      | Inr vs \<Rightarrow> Inr (zip (map fst s1) vs))"

text \<open>Python's \<^verbatim>\<open>xs[start:]\<close>, a negative start counting from the end.\<close>

definition py_slice_from :: "int \<Rightarrow> 'a list \<Rightarrow> 'a list" where
  "py_slice_from start xs =
     (let n = int (length xs);
          s = (if start < 0 then max 0 (n + start) else min start n)
      in drop (nat s) xs)"

text \<open>
  \<^verbatim>\<open>frame.mean(axis=1)\<close> with the defaults \<^verbatim>\<open>skipna=True\<close> and
  \<^verbatim>\<open>numeric_only=None\<close> of the pandas versions that have \<^verbatim>\<open>ExcelWriter.save\<close>,
  which the script calls (pandas before 2.0): per row the mean of the values present, a
  missing value for a row with none. The mean is first taken over all the selected
  columns; when a text among their cells makes that fail, it is taken over the numeric
  columns alone, those that hold no text, and the call returns. The script meets the
  second case with a single run file, where the selected columns include the label
  \<^verbatim>\<open>BG\<close>.
\<close>

fun nums :: "cell list \<Rightarrow> real list" where
  "nums [] = []"
| "nums (Num v # cs) = v # nums cs"
| "nums (c # cs) = nums cs"

definition row_mean :: "cell list \<Rightarrow> cell" where
  "row_mean cs =
     (let vs = nums cs in if vs = [] then Missing else Num (sum_list vs / real (length vs)))"

fun is_text :: "cell \<Rightarrow> bool" where
  "is_text (Str s) = True"
| "is_text c = False"

definition row_cells :: "(string \<times> cell list) list \<Rightarrow> nat \<Rightarrow> cell list" where
  "row_cells cols i = map (\<lambda>c. snd c ! i) cols"

definition numeric_columns :: "(string \<times> cell list) list \<Rightarrow> (string \<times> cell list) list" where
  "numeric_columns cols = filter (\<lambda>c. \<not> list_ex is_text (snd c)) cols"

definition mean_axis1 :: "int list \<Rightarrow> (string \<times> cell list) list \<Rightarrow> series" where
  "mean_axis1 idx cols =
     (let averaged =
            (if list_ex (\<lambda>c. list_ex is_text (snd c)) cols then numeric_columns cols else cols)
      in map (\<lambda>i. (idx ! i, row_mean (row_cells averaged i))) [0..<length idx])"

text \<open>\<^verbatim>\<open>filename.endswith(suffix)\<close>\<close>

definition endswith :: "string \<Rightarrow> string \<Rightarrow> bool" where
  "endswith s suf = (length suf \<le> length s \<and> drop (length s - length suf) s = suf)"

text \<open>\<^verbatim>\<open>"Run: {}".format(i)\<close>: the decimal digits of \<open>i\<close> after the prefix.\<close>

definition digit_char :: "nat \<Rightarrow> char" where
  "digit_char d = ''0123456789'' ! d"

fun str_nat :: "nat \<Rightarrow> string" where
  "str_nat n = (if n < 10 then [digit_char n] else str_nat (n div 10) @ [digit_char (n mod 10)])"

declare str_nat.simps [simp del]

definition run_name :: "nat \<Rightarrow> string" where
  "run_name i = ''Run: '' @ str_nat i"

section \<open>The functions of the script\<close>

text \<open>
  \<^verbatim>\<open>def asc_read(file_path):\<close>
  \<^verbatim>\<open>    col_names = ["Pixel", "value"]\<close>
  \<^verbatim>\<open>    data = pd.read_csv(file_path, sep="\t", names=col_names)\<close>
  \<^verbatim>\<open>    return data\<close>
\<close>

definition asc_read :: "filesystem \<Rightarrow> string \<Rightarrow> error + dataframe" where
  "asc_read fs file_path = read_csv fs file_path"

text \<open>
  \<^verbatim>\<open>def add_run_numbers(dataframe):\<close>
  \<^verbatim>\<open>    run_numbers = [None, "BG"] + [x for x in range(1, dataframe.shape[1] - 1)]\<close>
  \<^verbatim>\<open>    dataframe.loc[-1, :] = run_numbers\<close>
  \<^verbatim>\<open>    dataframe.index = dataframe.index + 1\<close>
  \<^verbatim>\<open>    dataframe.sort_index(inplace=True)\<close>
  \<^verbatim>\<open>    return dataframe\<close>
  The table it changes is the one \<^verbatim>\<open>iterate_over_runs\<close> has just built, which no other
  name refers to: here the function takes and returns the table as a value.
\<close>

definition add_run_numbers :: "dataframe \<Rightarrow> error + dataframe" where
  "add_run_numbers dataframe =
     (let run_numbers =
            [Missing, Str ''BG''] @ map (\<lambda>x. Num (real x)) [1..<length (columns dataframe) - 1]
      in case loc_setitem_row dataframe (- 1) run_numbers of
           Inl e \<Rightarrow> Inl e
         | Inr df1 \<Rightarrow> Inr (sort_index (df1\<lparr>index := map (\<lambda>l. l + 1) (index df1)\<rparr>)))"

text \<open>
  \<^verbatim>\<open>def iterate_over_runs(directory):\<close>
  \<^verbatim>\<open>    df = pd.DataFrame({"Pixel": [x for x in range(1, 1025)]})\<close>
  \<^verbatim>\<open>    for filename in os.listdir(directory):\<close>
  \<^verbatim>\<open>        if filename.endswith(".asc"):\<close>
  \<^verbatim>\<open>            asc_file = asc_read(directory + filename)\<close>
  \<^verbatim>\<open>            df[filename] = asc_file.iloc[:, 1]\<close>
  \<^verbatim>\<open>    df = add_run_numbers(df)\<close>
  \<^verbatim>\<open>    return df\<close>
  \<open>add_runs\<close> is the loop over the listing, \<open>pixel_frame\<close> the initial table.
\<close>

fun add_runs :: "filesystem \<Rightarrow> string \<Rightarrow> dataframe \<Rightarrow> string list \<Rightarrow> error + dataframe" where
  "add_runs fs directory df [] = Inr df"
| "add_runs fs directory df (filename # rest) =
     (if endswith filename ''.asc'' then
        (case asc_read fs (directory @ filename) of
           Inl e \<Rightarrow> Inl e
         | Inr asc_file \<Rightarrow>
             (case iloc_col asc_file 1 of
                Inl e \<Rightarrow> Inl e
              | Inr s \<Rightarrow>
                  (case setitem df filename s of
                     Inl e \<Rightarrow> Inl e
                   | Inr df' \<Rightarrow> add_runs fs directory df' rest)))
      else add_runs fs directory df rest)"

definition pixel_frame :: dataframe where
  "pixel_frame =
     \<lparr>index = map int [0..<1024], columns = [(''Pixel'', map (\<lambda>x. Num (real x)) [1..<1025])]\<rparr>"

definition iterate_over_runs :: "filesystem \<Rightarrow> string \<Rightarrow> error + dataframe" where
  "iterate_over_runs fs directory =
     (case listdir fs directory of
        Inl e \<Rightarrow> Inl e
      | Inr names \<Rightarrow>
          (case add_runs fs directory pixel_frame names of
             Inl e \<Rightarrow> Inl e
           | Inr df \<Rightarrow> add_run_numbers df))"

text \<open>
  \<^verbatim>\<open>def subtract_background(dataframe):\<close>
  \<^verbatim>\<open>    i = 1\<close>
  \<^verbatim>\<open>    for column in dataframe.iloc[:, 2:]:\<close>
  \<^verbatim>\<open>        column_name = "Run: {}".format(i)\<close>
  \<^verbatim>\<open>        dataframe[column_name] = df.iloc[1:, i+1] - df.iloc[1:, 1]\<close>
  \<^verbatim>\<open>        i += 1\<close>
  \<^verbatim>\<open>    return (dataframe, i - 1)\<close>
  \<open>df\<close> is the object the process-wide variable is bound to, \<open>dataframe\<close> the parameter;
  both are references into the store, and may be the same one. The loop runs once per
  column label of \<^verbatim>\<open>dataframe.iloc[:, 2:]\<close>, a table made before the first iteration.
\<close>

fun subtract_loop :: "heap \<Rightarrow> ref \<Rightarrow> ref \<Rightarrow> string list \<Rightarrow> nat \<Rightarrow> error + heap \<times> nat" where
  "subtract_loop h df dataframe [] i = Inr (h, i)"
| "subtract_loop h df dataframe (column # rest) i =
     (case iloc_rows1_col (h df) (i + 1) of
        Inl e \<Rightarrow> Inl e
      | Inr a \<Rightarrow>
          (case iloc_rows1_col (h df) 1 of
             Inl e \<Rightarrow> Inl e
           | Inr b \<Rightarrow>
               (case series_sub a b of
                  Inl e \<Rightarrow> Inl e
                | Inr s \<Rightarrow>
                    (case setitem (h dataframe) (run_name i) s of
                       Inl e \<Rightarrow> Inl e
                     | Inr d' \<Rightarrow> subtract_loop (h(dataframe := d')) df dataframe rest (i + 1)))))"

definition subtract_background :: "heap \<Rightarrow> ref \<Rightarrow> ref \<Rightarrow> error + heap \<times> nat" where
  "subtract_background h df dataframe =
     (case subtract_loop h df dataframe (drop 2 (map fst (columns (h dataframe)))) 1 of
        Inl e \<Rightarrow> Inl e
      | Inr (h', i) \<Rightarrow> Inr (h', i - 1))"

text \<open>
  \<^verbatim>\<open>def get_averaged_data_column(dataframe, number_of_runs):\<close>
  \<^verbatim>\<open>    dataframe["Mean"] = dataframe.iloc[:, -1 * number_of_runs:].mean(axis=1)\<close>
  \<^verbatim>\<open>    return dataframe\<close>
\<close>

definition get_averaged_data_column :: "heap \<Rightarrow> ref \<Rightarrow> int \<Rightarrow> error + heap" where
  "get_averaged_data_column h dataframe number_of_runs =
     (let d = h dataframe;
          s = mean_axis1 (index d) (py_slice_from (- 1 * number_of_runs) (columns d))
      in case setitem d ''Mean'' s of
           Inl e \<Rightarrow> Inl e
         | Inr d' \<Rightarrow> Inr (h(dataframe := d')))"

text \<open>
  One pass of the main loop, up to the averaged table:
  \<^verbatim>\<open>    df = iterate_over_runs(sub_folder)\<close>
  \<^verbatim>\<open>    subtracted_tuple = subtract_background(df)\<close>
  \<^verbatim>\<open>    subtracted_df = subtracted_tuple[0]\<close>
  \<^verbatim>\<open>    number_of_runs = subtracted_tuple[1]\<close>
  \<^verbatim>\<open>    averaged_df = get_averaged_data_column(subtracted_df, number_of_runs)\<close>
  The new table is stored at \<open>r\<close>, the process-wide \<^verbatim>\<open>df\<close> is bound to it, and it is
  passed on as the parameter. Re-indexing by \<^verbatim>\<open>Pixel\<close> and writing the workbook come
  after and are not modelled.
\<close>

definition process_folder :: "filesystem \<Rightarrow> heap \<Rightarrow> ref \<Rightarrow> string \<Rightarrow> error + dataframe" where
  "process_folder fs h r sub_folder =
     (case iterate_over_runs fs sub_folder of
        Inl e \<Rightarrow> Inl e
      | Inr t \<Rightarrow>
          (case subtract_background (h(r := t)) r r of
             Inl e \<Rightarrow> Inl e
           | Inr (h1, number_of_runs) \<Rightarrow>
               (case get_averaged_data_column h1 r (int number_of_runs) of
                  Inl e \<Rightarrow> Inl e
                | Inr h2 \<Rightarrow> Inr (h2 r))))"

section \<open>Notions used in the statements\<close>

text \<open>Reading a table: a column by name, a cell by column position and row position.\<close>

definition column :: "dataframe \<Rightarrow> string \<Rightarrow> cell list option" where
  "column df name = map_of (columns df) name"

definition cell_at :: "dataframe \<Rightarrow> nat \<Rightarrow> nat \<Rightarrow> cell" where
  "cell_at df j r = snd (columns df ! j) ! r"

text \<open>
  What \<^verbatim>\<open>frame.iloc[1:, j] - frame.iloc[1:, 1]\<close> computes from the columns of a frame
  (the cells only): used to state what the subtraction loop appends.
\<close>

definition diff_column :: "(string \<times> cell list) list \<Rightarrow> nat \<Rightarrow> error + cell list" where
  "diff_column cols j = sub_cells (drop 1 (snd (cols ! j))) (drop 1 (snd (cols ! 1)))"

text \<open>
  The shape of the table \<^verbatim>\<open>iterate_over_runs\<close> returns for a folder whose run files
  are \<open>files\<close>, in listing order: 1025 rows labelled 0 to 1024, the column \<^verbatim>\<open>Pixel\<close>
  and one column per run file, the label row first.
\<close>

definition experiment_table :: "dataframe \<Rightarrow> string list \<Rightarrow> bool" where
  "experiment_table t files \<longleftrightarrow>
     files \<noteq> [] \<and> distinct files \<and> list_all (\<lambda>f. endswith f ''.asc'') files \<and>
     index t = map int [0..<1025] \<and>
     map fst (columns t) = ''Pixel'' # files \<and>
     list_all (\<lambda>c. length (snd c) = 1025) (columns t) \<and>
     map (\<lambda>c. hd (snd c)) (columns t) =
       Missing # Str ''BG'' # map (\<lambda>x. Num (real x)) [1..<length files] \<and>
     snd (hd (columns t)) = Missing # map (\<lambda>x. Num (real x)) [1..<1025]"

text \<open>
  A run file that reads well: \<^verbatim>\<open>read_csv\<close> returns a table with at least two columns
  and distinct row labels, whose second column holds no text.
\<close>

definition reads_well :: "filesystem \<Rightarrow> string \<Rightarrow> bool" where
  "reads_well fs file_path =
     (case read_csv fs file_path of
        Inl e \<Rightarrow> False
      | Inr fr \<Rightarrow> 1 < length (columns fr) \<and> distinct (index fr) \<and>
                 \<not> list_ex is_text (snd (columns fr ! 1)))"

text \<open>The invariant of an experiment table once the label row is there.\<close>

definition table_invariant :: "dataframe \<Rightarrow> bool" where
  "table_invariant t \<longleftrightarrow>
     index t = map int [0..<1025] \<and> length (index t) = 1025 \<and>
     list_all (\<lambda>c. length (snd c) = 1025) (columns t) \<and>
     columns t \<noteq> [] \<and>
     hd (columns t) = (''Pixel'', Missing # map (\<lambda>x. Num (real x)) [1..<1025])"

text \<open>The number in a numeric cell.\<close>

fun is_number :: "cell \<Rightarrow> bool" where
  "is_number (Num v) = True"
| "is_number c = False"

fun the_number :: "cell \<Rightarrow> real" where
  "the_number (Num v) = v"
| "the_number c = 0"

section \<open>Example folders and tables\<close>

text \<open>A run file of 1024 rows, every intensity \<open>v\<close>, as \<^verbatim>\<open>read_csv\<close> returns it.\<close>

definition run_file :: "real \<Rightarrow> dataframe" where
  "run_file v =
     \<lparr>index = map int [0..<1024],
      columns = [(''Pixel'', map (\<lambda>x. Num (real x)) [1..<1025]), (''value'', replicate 1024 (Num v))]\<rparr>"

text \<open>
  The folder \<^verbatim>\<open>700\<close> of the specification's scenario: \<^verbatim>\<open>run1.asc\<close> (all values 10),
  \<^verbatim>\<open>run2.asc\<close> (all 15) and \<^verbatim>\<open>run3.asc\<close> (all 12), listed in that order.
\<close>

definition fs700 :: filesystem where
  "fs700 =
     \<lparr>listdir = (\<lambda>d. Inr [''run1.asc'', ''run2.asc'', ''run3.asc'']),
      read_csv = (\<lambda>p. if p = ''700/run1.asc'' then Inr (run_file 10)
                      else if p = ''700/run2.asc'' then Inr (run_file 15)
                      else if p = ''700/run3.asc'' then Inr (run_file 12)
                      else Inl OSError)\<rparr>"

text \<open>The aggregated table of folder 700, before the label row.\<close>

definition agg700 :: dataframe where
  "agg700 =
     \<lparr>index = map int [0..<1024],
    columns = [(''Pixel'', map (\<lambda>x. Num (real x)) [1..<1025]),
               (''run1.asc'', replicate 1024 (Num 10)),
               (''run2.asc'', replicate 1024 (Num 15)),
               (''run3.asc'', replicate 1024 (Num 12))]\<rparr>"

text \<open>The table \<^verbatim>\<open>iterate_over_runs\<close> returns for folder 700.\<close>

definition t700 :: dataframe where
  "t700 =
     \<lparr>index = map int [0..<1025],
    columns = [(''Pixel'', Missing # map (\<lambda>x. Num (real x)) [1..<1025]),
               (''run1.asc'', Str ''BG'' # replicate 1024 (Num 10)),
               (''run2.asc'', Num 1 # replicate 1024 (Num 15)),
               (''run3.asc'', Num 2 # replicate 1024 (Num 12))]\<rparr>"

text \<open>The same after \<^verbatim>\<open>subtract_background\<close>.\<close>

definition s700 :: dataframe where
  "s700 =
     \<lparr>index = map int [0..<1025],
    columns = [(''Pixel'', Missing # map (\<lambda>x. Num (real x)) [1..<1025]),
               (''run1.asc'', Str ''BG'' # replicate 1024 (Num 10)),
               (''run2.asc'', Num 1 # replicate 1024 (Num 15)),
               (''run3.asc'', Num 2 # replicate 1024 (Num 12)),
               (''Run: 1'', Missing # replicate 1024 (Num 5)),
               (''Run: 2'', Missing # replicate 1024 (Num 2))]\<rparr>"

text \<open>The finished table of folder 700.\<close>

definition f700 :: dataframe where
  "f700 =
     \<lparr>index = map int [0..<1025],
    columns = [(''Pixel'', Missing # map (\<lambda>x. Num (real x)) [1..<1025]),
               (''run1.asc'', Str ''BG'' # replicate 1024 (Num 10)),
               (''run2.asc'', Num 1 # replicate 1024 (Num 15)),
               (''run3.asc'', Num 2 # replicate 1024 (Num 12)),
               (''Run: 1'', Missing # replicate 1024 (Num 5)),
               (''Run: 2'', Missing # replicate 1024 (Num 2)),
               (''Mean'', Missing # replicate 1024 (Num 3.5))]\<rparr>"

text \<open>A folder with the single run file \<^verbatim>\<open>run1.asc\<close> and a text file.\<close>

definition fs_one_run :: filesystem where
  "fs_one_run =
     \<lparr>listdir = (\<lambda>d. Inr [''notes.txt'', ''run1.asc'']),
      read_csv = (\<lambda>p. if p = ''700/run1.asc'' then Inr (run_file 10) else Inl OSError)\<rparr>"

text \<open>The table \<^verbatim>\<open>iterate_over_runs\<close> returns for the folder with one run file.\<close>

definition one_run_table :: dataframe where
  "one_run_table =
     \<lparr>index = map int [0..<1025],
      columns = [(''Pixel'', Missing # map (\<lambda>x. Num (real x)) [1..<1025]),
                 (''run1.asc'', Str ''BG'' # replicate 1024 (Num 10))]\<rparr>"


text \<open>
  A run file cut short after two rows (both intensities 15), and the folder \<^verbatim>\<open>700\<close>
  with this file in the place of \<^verbatim>\<open>run2.asc\<close>.
\<close>

definition short_file :: dataframe where
  "short_file =
     \<lparr>index = [0, 1], columns = [(''Pixel'', [Num 1, Num 2]), (''value'', [Num 15, Num 15])]\<rparr>"

definition fs_short :: filesystem where
  "fs_short =
     \<lparr>listdir = (\<lambda>d. Inr [''run1.asc'', ''run2.asc'', ''run3.asc'']),
      read_csv = (\<lambda>p. if p = ''700/run1.asc'' then Inr (run_file 10)
                      else if p = ''700/run2.asc'' then Inr short_file
                      else if p = ''700/run3.asc'' then Inr (run_file 12)
                      else Inl OSError)\<rparr>"

text \<open>The table \<^verbatim>\<open>iterate_over_runs\<close> returns for the folder with the short file.\<close>

definition t_short :: dataframe where
  "t_short =
     \<lparr>index = map int [0..<1025],
    columns = [(''Pixel'', Missing # map (\<lambda>x. Num (real x)) [1..<1025]),
               (''run1.asc'', Str ''BG'' # replicate 1024 (Num 10)),
               (''run2.asc'', Num 1 # Num 15 # Num 15 # replicate 1022 Missing),
               (''run3.asc'', Num 2 # replicate 1024 (Num 12))]\<rparr>"

text \<open>A folder with no run file.\<close>

definition fs_no_runs :: filesystem where
  "fs_no_runs = \<lparr>listdir = (\<lambda>d. Inr [''notes.txt'']), read_csv = (\<lambda>p. Inl OSError)\<rparr>"

text \<open>
  A small table with a label row and two data rows, and a second one that differs in the
  data of its second run column only.
\<close>

definition small_table :: dataframe where
  "small_table =
     \<lparr>index = [0, 1, 2],
      columns = [(''Pixel'', [Missing, Num 1, Num 2]),
                 (''run1.asc'', [Str ''BG'', Num 10, Num 10]),
                 (''run2.asc'', [Num 1, Num 15, Num 15])]\<rparr>"

definition other_table :: dataframe where
  "other_table =
     \<lparr>index = [0, 1, 2],
      columns = [(''Pixel'', [Missing, Num 1, Num 2]),
                 (''run1.asc'', [Str ''BG'', Num 10, Num 10]),
                 (''run2.asc'', [Num 1, Num 20, Num 20])]\<rparr>"

text \<open>
  A small table after the subtraction, with a gap: the second run has no value in row 2,
  so \<^verbatim>\<open>Run: 1\<close> is missing there.
\<close>

definition gap_table :: dataframe where
  "gap_table =
     \<lparr>index = [0, 1, 2],
      columns = [(''Pixel'', [Missing, Num 1, Num 2]),
                 (''run1.asc'', [Str ''BG'', Num 10, Num 10]),
                 (''run2.asc'', [Num 1, Num 15, Missing]),
                 (''run3.asc'', [Num 2, Num 12, Num 12]),
                 (''Run: 1'', [Missing, Num 5, Missing]),
                 (''Run: 2'', [Missing, Num 2, Num 2])]\<rparr>"

text \<open>A store whose objects are all empty tables.\<close>

definition heap0 :: heap where
  "heap0 = (\<lambda>r. \<lparr>index = [], columns = []\<rparr>)"

section \<open>Facts about lists\<close>

lemma upsert_fresh: "name \<notin> fst ` set cs \<Longrightarrow> upsert name vs cs = cs @ [(name, vs)]"
  by (induction cs) auto

lemma map_of_upsert_same: "map_of (upsert name vs cs) name = Some vs"
  by (induction cs) auto

lemma upsert_names:
  "map fst (upsert name vs cs) = (if name \<in> set (map fst cs) then map fst cs else map fst cs @ [name])"
  by (induction cs) auto

lemma upsert_hd:
  "cs \<noteq> [] \<Longrightarrow> fst (hd cs) \<noteq> name \<Longrightarrow> hd (upsert name vs cs) = hd cs"
  by (cases cs) auto

lemma upsert_lengths:
  "list_all (\<lambda>c. length (snd c) = n) cs \<Longrightarrow> length vs = n \<Longrightarrow>
   list_all (\<lambda>c. length (snd c) = n) (upsert name vs cs)"
  by (induction cs) auto

lemma upsert_no_text:
  "\<not> list_ex (\<lambda>c. list_ex is_text (snd c)) cs \<Longrightarrow> \<not> list_ex is_text vs \<Longrightarrow>
   \<not> list_ex (\<lambda>c. list_ex is_text (snd c)) (upsert name vs cs)"
  by (induction cs) auto

lemma map_of_append_fresh:
  "name \<notin> fst ` set xs \<Longrightarrow> map_of (xs @ ys) name = map_of ys name"
  by (induction xs) auto

lemma map2_fst: "length xs = length ys \<Longrightarrow> map fst (map2 (\<lambda>c v. (fst c, f c v)) xs ys) = map fst xs"
  by (induction xs ys rule: list_induct2) auto

lemma map2_hd_snd:
  "length xs = length ys \<Longrightarrow> map (\<lambda>c. hd (snd c)) (map2 (\<lambda>c v. (fst c, v # snd c)) xs ys) = ys"
  by (induction xs ys rule: list_induct2) auto

lemma map2_tl_snd:
  "length xs = length ys \<Longrightarrow> map (\<lambda>c. (fst c, tl (snd c))) (map2 (\<lambda>c v. (fst c, v # snd c)) xs ys) = xs"
  by (induction xs ys rule: list_induct2) auto

lemma isl_projr: "\<not> isl x \<Longrightarrow> x = Inr (projr x)"
  by (cases x) auto

lemma sort_key_snoc_least:
  assumes "sorted (map f xs)" "\<forall>x\<in>set xs. f y < f x"
  shows "sort_key f (xs @ [y]) = y # xs"
proof -
  have "foldr (insort_key f) xs [y] = y # xs"
    using assms
  proof (induction xs)
    case Nil
    then show ?case by simp
  next
    case (Cons x xs)
    then have "foldr (insort_key f) xs [y] = y # xs" by simp
    moreover have "insort_key f x xs = x # xs"
      using Cons.prems by (intro insort_is_Cons) auto
    ultimately show ?case using Cons.prems by (auto simp: not_le)
  qed
  then show ?thesis by (simp add: sort_key_def)
qed

lemma shift_index: "map (\<lambda>l. l + 1) (map int [0..<n]) @ [0] = map int [1..<Suc n] @ [0]"
  by (induction n) auto

lemma sort_shifted_column:
  assumes "length vs = n"
  shows "map snd (sort_key fst (zip (map int [1..<Suc n] @ [0]) (vs @ [v]))) = v # vs"
proof -
  have z: "zip (map int [1..<Suc n] @ [0]) (vs @ [v]) = zip (map int [1..<Suc n]) vs @ [(0, v)]"
    using assms by simp
  have s: "sorted (map fst (zip (map int [1..<Suc n]) vs))"
    using assms by (simp add: sorted_map del: upt_Suc) 
  have l: "\<forall>x\<in>set (zip (map int [1..<Suc n]) vs). fst (0::int, v) < fst x"
    by (auto dest!: set_zip_leftD)
  show ?thesis
    unfolding z using sort_key_snoc_least [OF s l] assms by simp
qed

lemma sort_shifted_index: "sort (map int [1..<Suc n] @ [0]) = map int [0..<Suc n]"
proof -
  have s: "sorted (map (\<lambda>x. x) (map int [1..<Suc n]))"
    by (simp add: sorted_map del: upt_Suc)
  have l: "\<forall>x\<in>set (map int [1..<Suc n]). (0::int) < x" by auto
  have "sort (map int [1..<Suc n] @ [0]) = 0 # map int [1..<Suc n]"
    using sort_key_snoc_least [OF s l] by simp
  also have "\<dots> = map int [0..<Suc n]"
    by (simp add: upt_conv_Cons del: upt_Suc)
  finally show ?thesis .
qed

lemma py_slice_from_trailing:
  "0 < length ys \<Longrightarrow> py_slice_from (- int (length ys)) (xs @ ys) = ys"
  by (simp add: py_slice_from_def Let_def)

lemma py_slice_from_zero: "py_slice_from 0 xs = xs"
  by (simp add: py_slice_from_def Let_def)

lemma py_slice_from_last:
  "1 \<le> n \<Longrightarrow> n \<le> length xs \<Longrightarrow> py_slice_from (- int n) xs = drop (length xs - n) xs"
  by (simp add: py_slice_from_def Let_def nat_diff_distrib')

section \<open>File names and column names\<close>

lemma digit_range: "d < 10 \<Longrightarrow> d \<in> {0, 1, 2, 3, 4, 5, 6, 7, 8, 9::nat}"
  by auto

lemma digit_char_inj:
  assumes "a < 10" "b < 10" "digit_char a = digit_char b"
  shows "a = b"
  using digit_range [OF assms(1)] digit_range [OF assms(2)] assms(3)
  by (elim insertE emptyE) (simp_all add: digit_char_def)

lemma digit_char_not_c:
  assumes "d < 10"
  shows "digit_char d \<noteq> CHR ''c''"
  using digit_range [OF assms] by (elim insertE emptyE) (simp_all add: digit_char_def)

lemma str_nat_not_Nil: "str_nat n \<noteq> []"
  by (subst str_nat.simps) simp

lemma last_str_nat: "last (str_nat n) = digit_char (n mod 10)"
  by (subst str_nat.simps) simp

lemma str_nat_inj: "str_nat m = str_nat n \<Longrightarrow> m = n"
proof (induction m arbitrary: n rule: str_nat.induct)
  case (1 m)
  show ?case
  proof (cases "m < 10")
    case True
    then have m: "str_nat m = [digit_char m]" by (subst str_nat.simps) simp
    show ?thesis
    proof (cases "n < 10")
      case True
      then have "str_nat n = [digit_char n]" by (subst str_nat.simps) simp
      with m "1.prems" \<open>m < 10\<close> True show ?thesis by (auto dest: digit_char_inj)
    next
      case False
      then have "str_nat n = str_nat (n div 10) @ [digit_char (n mod 10)]"
        by (subst str_nat.simps) simp
      with m "1.prems" str_nat_not_Nil [of "n div 10"] show ?thesis
        by (cases "str_nat (n div 10)") auto
    qed
  next
    case False
    then have m: "str_nat m = str_nat (m div 10) @ [digit_char (m mod 10)]"
      by (subst str_nat.simps) simp
    show ?thesis
    proof (cases "n < 10")
      case True
      then have "str_nat n = [digit_char n]" by (subst str_nat.simps) simp
      with m "1.prems" str_nat_not_Nil [of "m div 10"] show ?thesis
        by (cases "str_nat (m div 10)") auto
    next
      case nf: False
      then have n: "str_nat n = str_nat (n div 10) @ [digit_char (n mod 10)]"
        by (subst str_nat.simps) simp
      from m n "1.prems" have eq: "str_nat (m div 10) = str_nat (n div 10)"
        and d: "digit_char (m mod 10) = digit_char (n mod 10)" by auto
      from "1.IH" [OF False eq] have "m div 10 = n div 10" .
      moreover from d have "m mod 10 = n mod 10"
        by (rule digit_char_inj [rotated 2]) simp_all
      ultimately show ?thesis by (metis div_mult_mod_eq)
    qed
  qed
qed

lemma run_name_inj: "run_name i = run_name k \<Longrightarrow> i = k"
  by (simp add: run_name_def str_nat_inj)

lemma distinct_run_names: "distinct (map run_name ks) = distinct ks"
  by (induction ks) (auto dest: run_name_inj)

lemma map_of_run_columns:
  "k \<in> set ks \<Longrightarrow> map_of (map (\<lambda>k. (run_name k, f k)) ks) (run_name k) = Some (f k)"
  by (induction ks) (auto dest: run_name_inj)

lemma endswith_asc_last:
  assumes "endswith s ''.asc''"
  shows "last s = CHR ''c''"
proof -
  have n: "length ''.asc'' = 4" by simp
  from assms have l: "4 \<le> length s" and d: "drop (length s - 4) s = ''.asc''"
    unfolding endswith_def n by simp_all
  from l have "last (drop (length s - 4) s) = last s"
    by (intro last_drop) simp
  with d show ?thesis by simp
qed

lemma run_name_not_asc: "\<not> endswith (run_name i) ''.asc''"
proof
  assume "endswith (run_name i) ''.asc''"
  then have "last (run_name i) = CHR ''c''" by (rule endswith_asc_last)
  moreover have "last (run_name i) = digit_char (i mod 10)"
    by (simp add: run_name_def str_nat_not_Nil last_str_nat)
  ultimately show False using digit_char_not_c [of "i mod 10"] by simp
qed

lemma run_name_not_Pixel: "run_name i \<noteq> ''Pixel''"
  by (simp add: run_name_def)

lemma run_name_not_Mean: "run_name i \<noteq> ''Mean''"
  by (simp add: run_name_def)

lemma Mean_not_asc: "\<not> endswith ''Mean'' ''.asc''"
  by (simp add: endswith_def)

lemma Pixel_not_asc: "\<not> endswith ''Pixel'' ''.asc''"
  by (simp add: endswith_def)

section \<open>Aligned assignment\<close>

lemma reindex_same: "length vs = length idx \<Longrightarrow> reindex idx (zip idx vs) = Inr vs"
  by (simp add: reindex_def)

lemma reindex_length: "reindex idx s = Inr vs \<Longrightarrow> length vs = length idx"
  by (auto simp: reindex_def split: if_splits dest: arg_cong [where f = length])

lemma reindex_tail:
  assumes "distinct (l # ls)" "length vs = length ls"
  shows "reindex (l # ls) (zip ls vs) = Inr (Missing # vs)"
proof -
  have neq: "map fst (zip ls vs) \<noteq> l # ls"
    using assms by (auto dest: arg_cong [where f = length])
  have d: "distinct (map fst (zip ls vs))"
    using assms by simp
  have none: "map_of (zip ls vs) l = None"
    using assms by (auto simp: map_of_eq_None_iff dest: set_zip_leftD)
  have rest: "map (\<lambda>l. case map_of (zip ls vs) l of None \<Rightarrow> Missing | Some c \<Rightarrow> c) ls = vs"
    using assms by (auto intro!: nth_equalityI simp: map_of_zip_nth)
  show ?thesis
    using neq d none rest by (simp add: reindex_def)
qed

lemma reindex_own_index:
  "reindex idx (map (\<lambda>i. (idx ! i, f i)) [0..<length idx]) = Inr (map f [0..<length idx])"
proof -
  have "map fst (map (\<lambda>i. (idx ! i, f i)) [0..<length idx]) = idx"
    by (simp add: comp_def map_nth)
  then show ?thesis by (simp add: reindex_def comp_def)
qed

lemma reindex_cells:
  assumes "reindex idx s = Inr vs" and "x \<in> set vs"
  shows "x = Missing \<or> x \<in> snd ` set s"
proof (cases "map fst s = idx")
  case True
  with assms show ?thesis by (auto simp: reindex_def)
next
  case False
  with assms obtain l where "x = (case map_of s l of None \<Rightarrow> Missing | Some c \<Rightarrow> c)"
    by (auto simp: reindex_def split: if_splits)
  then show ?thesis
    by (cases "map_of s l") (auto dest!: map_of_SomeD intro: rev_image_eqI)
qed

lemma reindex_distinct: "distinct (map fst s) \<Longrightarrow> \<exists>vs. reindex idx s = Inr vs"
  by (simp add: reindex_def)

lemma setitem_index: "setitem df name s = Inr df' \<Longrightarrow> index df' = index df"
  by (auto simp: setitem_def split: sum.splits)

lemma setitem_rectangular:
  "setitem df name s = Inr df' \<Longrightarrow> rectangular df \<Longrightarrow> rectangular df'"
  by (auto simp: setitem_def rectangular_def split: sum.splits
      intro!: upsert_lengths dest: reindex_length)

lemma setitem_fresh:
  assumes "setitem df name s = Inr df'" "name \<notin> fst ` set (columns df)"
  shows "\<exists>vs. length vs = length (index df) \<and> df' = df\<lparr>columns := columns df @ [(name, vs)]\<rparr>"
  using assms by (auto simp: setitem_def upsert_fresh split: sum.splits dest: reindex_length)

lemma setitem_names:
  "setitem df name s = Inr df' \<Longrightarrow>
   map fst (columns df') =
     (if name \<in> set (map fst (columns df)) then map fst (columns df)
      else map fst (columns df) @ [name])"
  by (auto simp: setitem_def upsert_names simp del: set_map split: sum.splits)

lemma setitem_hd:
  "setitem df name s = Inr df' \<Longrightarrow> columns df \<noteq> [] \<Longrightarrow> fst (hd (columns df)) \<noteq> name \<Longrightarrow>
   hd (columns df') = hd (columns df)"
  by (auto simp: setitem_def upsert_hd split: sum.splits)

section \<open>The aggregation loop\<close>

lemma add_runs_index: "add_runs fs d df names = Inr df' \<Longrightarrow> index df' = index df"
  by (induction names arbitrary: df) (auto split: if_splits sum.splits dest: setitem_index)

lemma add_runs_rectangular:
  "add_runs fs d df names = Inr df' \<Longrightarrow> rectangular df \<Longrightarrow> rectangular df'"
  by (induction names arbitrary: df) (auto split: if_splits sum.splits dest: setitem_rectangular)

lemma add_runs_columns:
  assumes "add_runs fs d df names = Inr df'" "distinct names"
    and "\<forall>f\<in>set names. endswith f ''.asc'' \<longrightarrow> f \<notin> fst ` set (columns df)"
  shows "\<exists>new. columns df' = columns df @ new \<and>
           map fst new = filter (\<lambda>f. endswith f ''.asc'') names"
  using assms
proof (induction names arbitrary: df)
  case Nil
  then show ?case by simp
next
  case (Cons f names)
  show ?case
  proof (cases "endswith f ''.asc''")
    case False
    with Cons.prems have "add_runs fs d df names = Inr df'" by simp
    from Cons.IH [OF this] Cons.prems False show ?thesis by simp
  next
    case True
    with Cons.prems obtain asc_file s df1 where
      s: "setitem df f s = Inr df1" and r: "add_runs fs d df1 names = Inr df'"
      by (auto split: sum.splits)
    from True Cons.prems have "f \<notin> fst ` set (columns df)" by simp
    from setitem_fresh [OF s this] obtain vs where
      df1: "df1 = df\<lparr>columns := columns df @ [(f, vs)]\<rparr>" by blast
    have "\<forall>g\<in>set names. endswith g ''.asc'' \<longrightarrow> g \<notin> fst ` set (columns df1)"
      using Cons.prems df1 by auto
    from Cons.IH [OF r _ this] Cons.prems obtain new where
      "columns df' = columns df1 @ new" "map fst new = filter (\<lambda>f. endswith f ''.asc'') names"
      by auto
    with df1 True show ?thesis by simp
  qed
qed

text \<open>The aggregation loop, for any listing: the names it adds end in .asc and are distinct.\<close>

lemma add_runs_names:
  assumes "add_runs fs d df names = Inr df'"
    and "map fst (columns df) = ''Pixel'' # files"
    and "distinct files" "list_all (\<lambda>f. endswith f ''.asc'') files"
  shows "\<exists>files'. map fst (columns df') = ''Pixel'' # files' \<and> distinct files' \<and>
           list_all (\<lambda>f. endswith f ''.asc'') files' \<and> hd (columns df') = hd (columns df) \<and>
           set files' = set files \<union> set (filter (\<lambda>f. endswith f ''.asc'') names)"
  using assms
proof (induction names arbitrary: df files)
  case Nil
  then show ?case by auto
next
  case (Cons f names)
  show ?case
  proof (cases "endswith f ''.asc''")
    case False
    with Cons.prems have "add_runs fs d df names = Inr df'" by simp
    from Cons.IH [OF this Cons.prems(2-4)] False show ?thesis by simp
  next
    case True
    with Cons.prems obtain s df1 where
      s: "setitem df f s = Inr df1" and r: "add_runs fs d df1 names = Inr df'"
      by (auto split: sum.splits)
    have fP: "f \<noteq> ''Pixel''" using True Pixel_not_asc by auto
    let ?files1 = "if f \<in> set files then files else files @ [f]"
    have n1: "map fst (columns df1) = ''Pixel'' # ?files1"
      using setitem_names [OF s] Cons.prems(2) fP by auto
    have d1: "distinct ?files1" using Cons.prems(3) by auto
    have a1: "list_all (\<lambda>f. endswith f ''.asc'') ?files1" using Cons.prems(4) True by auto
    have ne: "columns df \<noteq> []" using Cons.prems(2) by auto
    then have "fst (hd (columns df)) = ''Pixel''" using Cons.prems(2) by (cases "columns df") auto
    with fP have h1: "hd (columns df1) = hd (columns df)"
      using setitem_hd [OF s ne] by auto
    from Cons.IH [OF r n1 d1 a1] obtain files' where
      f': "map fst (columns df') = ''Pixel'' # files'" "distinct files'"
        "list_all (\<lambda>f. endswith f ''.asc'') files'" "hd (columns df') = hd (columns df1)"
        "set files' = set ?files1 \<union> set (filter (\<lambda>f. endswith f ''.asc'') names)"
      by (elim exE conjE) (rule that; assumption)
    have "set files' = set files \<union> set (filter (\<lambda>f. endswith f ''.asc'') (f # names))"
      using f'(5) True by auto
    with f' h1 show ?thesis by auto
  qed
qed

lemma rectangular_pixel_frame: "rectangular pixel_frame"
  by (simp add: rectangular_def pixel_frame_def)

lemma add_runs_pixel_frame:
  assumes "add_runs fs d pixel_frame names = Inr agg"
  shows "\<exists>files. map fst (columns agg) = ''Pixel'' # files \<and> distinct files \<and>
           list_all (\<lambda>f. endswith f ''.asc'') files \<and>
           set files = set (filter (\<lambda>f. endswith f ''.asc'') names) \<and>
           hd (columns agg) = (''Pixel'', map (\<lambda>x. Num (real x)) [1..<1025]) \<and>
           index agg = map int [0..<1024] \<and> rectangular agg"
proof -
  have "map fst (columns pixel_frame) = ''Pixel'' # []" by (simp add: pixel_frame_def)
  from add_runs_names [OF assms this] obtain files where
    "map fst (columns agg) = ''Pixel'' # files" "distinct files"
    "list_all (\<lambda>f. endswith f ''.asc'') files" "hd (columns agg) = hd (columns pixel_frame)"
    "set files = set [] \<union> set (filter (\<lambda>f. endswith f ''.asc'') names)"
    by auto
  moreover have "index agg = map int [0..<1024]"
    using add_runs_index [OF assms] by (simp add: pixel_frame_def)
  moreover have "rectangular agg"
    using add_runs_rectangular [OF assms rectangular_pixel_frame] .
  ultimately show ?thesis by (simp add: pixel_frame_def)
qed

lemma add_runs_skips:
  "list_all (\<lambda>f. \<not> endswith f ''.asc'') names \<Longrightarrow> add_runs fs d df names = Inr df"
  by (induction names) auto

lemma add_runs_total:
  assumes "\<forall>f\<in>set names. endswith f ''.asc'' \<longrightarrow> reads_well fs (d @ f)"
    and "\<not> list_ex (\<lambda>c. list_ex is_text (snd c)) (columns df)"
  shows "\<exists>df'. add_runs fs d df names = Inr df' \<and>
           \<not> list_ex (\<lambda>c. list_ex is_text (snd c)) (columns df')"
  using assms
proof (induction names arbitrary: df)
  case Nil
  then show ?case by simp
next
  case (Cons f names)
  show ?case
  proof (cases "endswith f ''.asc''")
    case False
    with Cons show ?thesis by simp
  next
    case True
    with Cons.prems(1) have "reads_well fs (d @ f)" by simp
    then obtain fr where fr: "read_csv fs (d @ f) = Inr fr" "1 < length (columns fr)"
      "distinct (index fr)" "\<not> list_ex is_text (snd (columns fr ! 1))"
      by (auto simp: reads_well_def split: sum.splits)
    let ?s = "zip (index fr) (snd (columns fr ! 1))"
    have il: "iloc_col fr 1 = Inr ?s" using fr(2) by (simp add: iloc_col_def)
    have "distinct (map fst ?s)" using fr(3) by (simp add: map_fst_zip_take)
    from reindex_distinct [OF this] obtain vs where vs: "reindex (index df) ?s = Inr vs" by blast
    have "\<not> is_text x" if x: "x \<in> set vs" for x
    proof -
      from reindex_cells [OF vs x] consider "x = Missing" | "x \<in> set (snd (columns fr ! 1))"
        by (auto dest: set_zip_rightD)
      then show ?thesis using fr(4) by cases (auto simp: list_ex_iff)
    qed
    then have nt: "\<not> list_ex is_text vs" by (auto simp: list_ex_iff)
    let ?df1 = "df\<lparr>columns := upsert f vs (columns df)\<rparr>"
    have st: "setitem df f ?s = Inr ?df1" using vs by (simp add: setitem_def)
    have "\<not> list_ex (\<lambda>c. list_ex is_text (snd c)) (columns ?df1)"
      using upsert_no_text [OF Cons.prems(2) nt] by simp
    with Cons.IH [of ?df1] Cons.prems(1) obtain df' where
      "add_runs fs d ?df1 names = Inr df'" "\<not> list_ex (\<lambda>c. list_ex is_text (snd c)) (columns df')"
      by auto
    with True fr(1) il st show ?thesis by (simp add: asc_read_def)
  qed
qed

section \<open>The label row and the experiment table\<close>

lemma add_run_numbers_rows:
  assumes idx: "index df = map int [0..<n]"
    and rect: "rectangular df"
    and len: "length (columns df) = Suc (Suc m)"
  shows "add_run_numbers df =
     Inr \<lparr>index = map int [0..<Suc n],
          columns = map2 (\<lambda>c v. (fst c, v # snd c)) (columns df)
             (Missing # Str ''BG'' # map (\<lambda>x. Num (real x)) [1..<Suc m])\<rparr>"
proof -
  let ?row = "Missing # Str ''BG'' # map (\<lambda>x. Num (real x)) [1..<Suc m]"
  have lr: "length ?row = length (columns df)" using len by simp
  have notin: "- 1 \<notin> set (index df)" using idx by auto
  have cols: "map (\<lambda>c. (fst c, map snd (sort_key fst (zip (map int [1..<Suc n] @ [0]) (snd c)))))
         (map2 (\<lambda>c v. (fst c, snd c @ [v])) (columns df) ?row)
       = map2 (\<lambda>c v. (fst c, v # snd c)) (columns df) ?row"
  proof (rule nth_equalityI)
    show "length (map (\<lambda>c. (fst c, map snd (sort_key fst (zip (map int [1..<Suc n] @ [0]) (snd c)))))
         (map2 (\<lambda>c v. (fst c, snd c @ [v])) (columns df) ?row)) =
       length (map2 (\<lambda>c v. (fst c, v # snd c)) (columns df) ?row)" by simp
  next
    fix i
    assume "i < length (map (\<lambda>c. (fst c, map snd (sort_key fst (zip (map int [1..<Suc n] @ [0]) (snd c)))))
         (map2 (\<lambda>c v. (fst c, snd c @ [v])) (columns df) ?row))"
    then have i: "i < length (columns df)" using lr by simp
    then have "length (snd (columns df ! i)) = n"
      using rect idx by (simp add: rectangular_def list_all_length)
    from sort_shifted_column [OF this] i lr
    show "map (\<lambda>c. (fst c, map snd (sort_key fst (zip (map int [1..<Suc n] @ [0]) (snd c)))))
         (map2 (\<lambda>c v. (fst c, snd c @ [v])) (columns df) ?row) ! i =
       map2 (\<lambda>c v. (fst c, v # snd c)) (columns df) ?row ! i"
      by (simp del: upt_Suc)
  qed
  have "add_run_numbers df =
     Inr (sort_index \<lparr>index = map int [1..<Suc n] @ [0],
            columns = map2 (\<lambda>c v. (fst c, snd c @ [v])) (columns df) ?row\<rparr>)"
    using lr notin len idx shift_index [of n]
    by (simp add: add_run_numbers_def loc_setitem_row_def del: upt_Suc)
  also have "\<dots> = Inr \<lparr>index = map int [0..<Suc n],
          columns = map2 (\<lambda>c v. (fst c, v # snd c)) (columns df) ?row\<rparr>"
    unfolding sort_index_def using cols sort_shifted_index [of n] by (simp del: upt_Suc)
  finally show ?thesis .
qed

lemma add_run_numbers_one_column:
  "length (columns df) = 1 \<Longrightarrow> add_run_numbers df = Inl ValueError"
  by (simp add: add_run_numbers_def loc_setitem_row_def)

lemma add_run_numbers_experiment_table:
  assumes n: "add_run_numbers agg = Inr t"
    and f: "map fst (columns agg) = ''Pixel'' # files" "distinct files"
      "list_all (\<lambda>f. endswith f ''.asc'') files"
      "hd (columns agg) = (''Pixel'', map (\<lambda>x. Num (real x)) [1..<1025])"
      "index agg = map int [0..<1024]" "rectangular agg"
  shows "experiment_table t files"
proof -
  have len: "length (columns agg) = Suc (length files)"
    using f(1) by (metis length_Cons length_map)
  have ne: "files \<noteq> []"
  proof
    assume "files = []"
    with len have "length (columns agg) = 1" by simp
    from add_run_numbers_one_column [OF this] n show False by simp
  qed
  then obtain m where m: "length files = Suc m" by (cases files) auto
  let ?row = "Missing # Str ''BG'' # map (\<lambda>x. Num (real x)) [1..<Suc m]"
  have t: "t = \<lparr>index = map int [0..<Suc 1024],
          columns = map2 (\<lambda>c v. (fst c, v # snd c)) (columns agg) ?row\<rparr>"
    using add_run_numbers_rows [OF f(5) f(6), of m] len m n by simp
  have lr: "length (columns agg) = length ?row" using len m by simp
  have lens: "list_all (\<lambda>c. length (snd c) = 1025) (columns t)"
    using f(6) f(5) lr unfolding t rectangular_def
    by (auto simp: list_all_length)
  have hd: "snd (hd (columns t)) = Missing # map (\<lambda>x. Num (real x)) [1..<1025]"
    using f(4) f(1) unfolding t by (cases "columns agg") auto
  show ?thesis
    unfolding experiment_table_def
    using ne f(2,3) lens hd m f(1) map2_fst [OF lr] map2_hd_snd [OF lr]
    by (simp add: t del: upt_Suc)
qed

lemma iterate_over_runs_experiment_table:
  assumes "iterate_over_runs fs d = Inr t"
  shows "\<exists>files. experiment_table t files"
proof -
  from assms obtain names agg where
    a: "add_runs fs d pixel_frame names = Inr agg" and n: "add_run_numbers agg = Inr t"
    by (auto simp: iterate_over_runs_def split: sum.splits)
  from add_runs_pixel_frame [OF a] obtain files where
    f: "map fst (columns agg) = ''Pixel'' # files" "distinct files"
      "list_all (\<lambda>f. endswith f ''.asc'') files"
      "hd (columns agg) = (''Pixel'', map (\<lambda>x. Num (real x)) [1..<1025])"
      "index agg = map int [0..<1024]" "rectangular agg"
    by (elim exE conjE) (rule that; assumption)
  from add_run_numbers_experiment_table [OF n f] show ?thesis ..
qed

lemma iterate_over_runs_files:
  assumes it: "iterate_over_runs fs d = Inr t"
    and l: "listdir fs d = Inr names" and dn: "distinct names"
  shows "experiment_table t (filter (\<lambda>f. endswith f ''.asc'') names)"
proof -
  from it l obtain agg where
    a: "add_runs fs d pixel_frame names = Inr agg" and n: "add_run_numbers agg = Inr t"
    by (auto simp: iterate_over_runs_def split: sum.splits)
  have "\<forall>f\<in>set names. endswith f ''.asc'' \<longrightarrow> f \<notin> fst ` set (columns pixel_frame)"
    using Pixel_not_asc by (auto simp: pixel_frame_def)
  from add_runs_columns [OF a dn this] obtain new where
    new: "columns agg = columns pixel_frame @ new"
      "map fst new = filter (\<lambda>f. endswith f ''.asc'') names"
    by (elim exE conjE) (rule that; assumption)
  have f1: "map fst (columns agg) = ''Pixel'' # filter (\<lambda>f. endswith f ''.asc'') names"
    using new by (simp add: pixel_frame_def)
  have f2: "distinct (filter (\<lambda>f. endswith f ''.asc'') names)" using dn by simp
  have f3: "list_all (\<lambda>f. endswith f ''.asc'') (filter (\<lambda>f. endswith f ''.asc'') names)"
    by (simp add: list_all_iff)
  have f4: "hd (columns agg) = (''Pixel'', map (\<lambda>x. Num (real x)) [1..<1025])"
    using new(1) by (simp add: pixel_frame_def)
  have f5: "index agg = map int [0..<1024]"
    using add_runs_index [OF a] by (simp add: pixel_frame_def)
  have f6: "rectangular agg"
    using add_runs_rectangular [OF a rectangular_pixel_frame] .
  from add_run_numbers_experiment_table [OF n f1 f2 f3 f4 f5 f6] show ?thesis .
qed

lemma iterate_over_runs_without_runs:
  assumes "listdir fs d = Inr names" "list_all (\<lambda>f. \<not> endswith f ''.asc'') names"
  shows "iterate_over_runs fs d = Inl ValueError"
  using assms add_run_numbers_one_column [of pixel_frame]
  by (simp add: iterate_over_runs_def add_runs_skips pixel_frame_def del: add_runs.simps)

lemma experiment_table_index:
  assumes "experiment_table t files"
  shows "index t = 0 # map int [1..<1025]" and "distinct (0 # map int [1..<1025])"
    and "length (index t) = 1025"
proof -
  have "[0..<1025] = 0 # [1..<1025]" by (subst upt_rec) simp
  then show "index t = 0 # map int [1..<1025]"
    using assms by (simp add: experiment_table_def)
  show "distinct (0 # map int [1..<1025])"
    by (auto simp: distinct_map intro: inj_onI)
  show "length (index t) = 1025" using assms by (simp add: experiment_table_def)
qed

lemma experiment_table_columns:
  assumes "experiment_table t files"
  shows "length (columns t) = Suc (length files)"
    and "list_all (\<lambda>c. length (snd c) = Suc (length (map int [1..<1025]))) (columns t)"
    and "run_name k \<notin> fst ` set (columns t)"
    and "''Mean'' \<notin> fst ` set (columns t)"
    and "files \<noteq> []"
proof -
  have names: "map fst (columns t) = ''Pixel'' # files"
    and asc: "list_all (\<lambda>f. endswith f ''.asc'') files"
    using assms by (simp_all add: experiment_table_def)
  show "length (columns t) = Suc (length files)"
    using names by (metis length_Cons length_map)
  show "list_all (\<lambda>c. length (snd c) = Suc (length (map int [1..<1025]))) (columns t)"
    using assms by (simp add: experiment_table_def)
  have set: "fst ` set (columns t) = insert ''Pixel'' (set files)"
    using names by (metis list.simps(15) set_map)
  show "run_name k \<notin> fst ` set (columns t)"
    unfolding set using asc run_name_not_asc [of k] run_name_not_Pixel [of k]
    by (auto simp: list_all_iff)
  show "''Mean'' \<notin> fst ` set (columns t)"
    unfolding set using asc Mean_not_asc by (auto simp: list_all_iff)
  show "files \<noteq> []" using assms by (simp add: experiment_table_def)
qed

lemma experiment_table_length:
  "experiment_table t files \<Longrightarrow> length (columns t) = Suc N \<Longrightarrow> length files = N"
  using experiment_table_columns(1) by fastforce

lemma experiment_table_names:
  assumes "experiment_table t files"
  shows "map fst (columns t) = ''Pixel'' # files" and "distinct (''Pixel'' # files)"
    and "run_name k \<notin> set (''Pixel'' # files)" and "''Mean'' \<notin> set (''Pixel'' # files)"
proof -
  show n: "map fst (columns t) = ''Pixel'' # files"
    using assms by (simp add: experiment_table_def)
  have asc: "list_all (\<lambda>f. endswith f ''.asc'') files" and d: "distinct files"
    using assms by (simp_all add: experiment_table_def)
  show "distinct (''Pixel'' # files)"
    using asc d Pixel_not_asc by (auto simp: list_all_iff)
  show "run_name k \<notin> set (''Pixel'' # files)"
    using asc run_name_not_asc [of k] run_name_not_Pixel [of k] by (auto simp: list_all_iff)
  show "''Mean'' \<notin> set (''Pixel'' # files)"
    using asc Mean_not_asc by (auto simp: list_all_iff)
qed

lemma experiment_table_invariant:
  assumes "experiment_table t files"
  shows "table_invariant t"
proof -
  from assms have n: "map fst (columns t) = ''Pixel'' # files"
    and s: "snd (hd (columns t)) = Missing # map (\<lambda>x. Num (real x)) [1..<1025]"
    by (simp_all add: experiment_table_def)
  from n have ne: "columns t \<noteq> []" by auto
  with n have "fst (hd (columns t)) = ''Pixel''" by (cases "columns t") auto
  with s have "hd (columns t) = (''Pixel'', Missing # map (\<lambda>x. Num (real x)) [1..<1025])"
    by (metis prod.collapse)
  with assms ne show ?thesis
    by (simp add: table_invariant_def experiment_table_def)
qed

lemma table_invariant_append:
  assumes "table_invariant t" "list_all (\<lambda>c. length (snd c) = 1025) new"
  shows "table_invariant (t\<lparr>columns := columns t @ new\<rparr>)"
  using assms by (simp add: table_invariant_def)

section \<open>The subtraction loop\<close>

lemma sub_cells_length:
  "sub_cells as bs = Inr cs \<Longrightarrow> length cs = min (length as) (length bs)"
  by (induction as bs arbitrary: cs rule: sub_cells.induct) (auto split: sum.splits)

lemma sub_cells_nth:
  "sub_cells as bs = Inr cs \<Longrightarrow> i < length cs \<Longrightarrow> cell_sub (as ! i) (bs ! i) = Inr (cs ! i)"
proof (induction as bs arbitrary: cs i rule: sub_cells.induct)
  case (1 a as b bs)
  then show ?case by (cases i) (auto split: sum.splits)
qed auto

lemma cell_sub_error: "cell_sub a b = Inl e \<Longrightarrow> e = TypeError"
  by (induction a b rule: cell_sub.induct) auto

lemma sub_cells_error: "sub_cells as bs = Inl e \<Longrightarrow> e = TypeError"
  by (induction as bs rule: sub_cells.induct) (auto split: sum.splits dest: cell_sub_error)

lemma cell_sub_no_text: "cell_sub a b = Inr c \<Longrightarrow> \<not> is_text c"
  by (induction a b rule: cell_sub.induct) auto

lemma sub_cells_no_text: "sub_cells as bs = Inr cs \<Longrightarrow> \<not> list_ex is_text cs"
  by (induction as bs arbitrary: cs rule: sub_cells.induct)
     (auto split: sum.splits dest: cell_sub_no_text)

lemma sub_cells_total:
  "\<forall>i<min (length as) (length bs). \<not> isl (cell_sub (as ! i) (bs ! i)) \<Longrightarrow> \<not> isl (sub_cells as bs)"
proof (induction as bs rule: sub_cells.induct)
  case (1 a as b bs)
  from "1.prems" have h: "\<not> isl (cell_sub a b)" by fastforce
  then obtain c where c: "cell_sub a b = Inr c" by (cases "cell_sub a b") auto
  have "\<forall>i<min (length as) (length bs). \<not> isl (cell_sub (as ! i) (bs ! i))"
    using "1.prems" by fastforce
  from "1.IH" [OF c this] c show ?case by (auto split: sum.splits)
qed auto

lemma cell_sub_total: "\<not> is_text a \<Longrightarrow> \<not> is_text b \<Longrightarrow> \<not> isl (cell_sub a b)"
  by (induction a b rule: cell_sub.induct) auto

lemma sub_cells_no_text_total:
  assumes "\<not> list_ex is_text as" "\<not> list_ex is_text bs"
  shows "\<not> isl (sub_cells as bs)"
proof (rule sub_cells_total, intro allI impI)
  fix i assume "i < min (length as) (length bs)"
  then have "as ! i \<in> set as" "bs ! i \<in> set bs" by simp_all
  with assms have "\<not> is_text (as ! i)" "\<not> is_text (bs ! i)" by (auto simp: list_ex_iff)
  then show "\<not> isl (cell_sub (as ! i) (bs ! i))" by (rule cell_sub_total)
qed

lemma iloc_rows1_col_shared:
  assumes "index df = l0 # ls" "columns df = base @ added" "j < length base"
    and "list_all (\<lambda>c. length (snd c) = Suc (length ls)) base"
  shows "iloc_rows1_col df j = Inr (zip ls (drop 1 (snd (base ! j))))"
    and "length (drop 1 (snd (base ! j))) = length ls"
  using assms by (simp_all add: iloc_rows1_col_def nth_append list_all_length drop_Suc zip_Cons1 split: list.splits)

lemma series_sub_shared:
  assumes "length xs = length ls" "length ys = length ls"
  shows "series_sub (zip ls xs) (zip ls ys) =
     (case sub_cells xs ys of Inl e \<Rightarrow> Inl e | Inr vs \<Rightarrow> Inr (zip ls vs))"
  using assms by (simp add: series_sub_def split: sum.splits)

lemma subtract_step:
  assumes idx: "index (h r) = l0 # ls" and dist: "distinct (l0 # ls)"
    and cols: "columns (h r) = base @ added"
    and rect: "list_all (\<lambda>c. length (snd c) = Suc (length ls)) base"
    and range: "Suc i < length base"
    and fresh: "run_name i \<notin> fst ` set (base @ added)"
  shows "subtract_loop h r r (lab # rest) i =
     (case diff_column base (Suc i) of
        Inl e \<Rightarrow> Inl TypeError
      | Inr vs \<Rightarrow>
          subtract_loop (h(r := (h r)\<lparr>columns := base @ added @ [(run_name i, Missing # vs)]\<rparr>))
            r r rest (Suc i))"
proof -
  have one: "1 < length base" using range by simp
  note a = iloc_rows1_col_shared [OF idx cols range rect]
  note b = iloc_rows1_col_shared [OF idx cols one rect]
  show ?thesis
  proof (cases "diff_column base (Suc i)")
    case (Inl e)
    then have "e = TypeError" by (auto simp: diff_column_def dest: sub_cells_error)
    with Inl show ?thesis
      using a b by (simp add: series_sub_shared diff_column_def)
  next
    case (Inr vs)
    then have lv: "length vs = length ls"
      using a(2) b(2) by (auto simp: diff_column_def dest!: sub_cells_length)
    have "setitem (h r) (run_name i) (zip ls vs) =
        Inr ((h r)\<lparr>columns := base @ added @ [(run_name i, Missing # vs)]\<rparr>)"
      using reindex_tail [OF dist lv] fresh idx cols
      by (simp add: setitem_def upsert_fresh)
    with Inr show ?thesis
      using a b by (simp add: series_sub_shared diff_column_def)
  qed
qed

lemma subtract_loop_shared:
  assumes "index (h r) = l0 # ls" "distinct (l0 # ls)"
    and "columns (h r) = base @ added"
    and "list_all (\<lambda>c. length (snd c) = Suc (length ls)) base"
    and "i + length labels < length base"
    and "\<forall>k\<ge>i. run_name k \<notin> fst ` set (base @ added)"
  shows "subtract_loop h r r labels i =
     (if list_all (\<lambda>k. \<not> isl (diff_column base (Suc k))) [i..<i + length labels]
      then Inr (h(r := (h r)\<lparr>columns := base @ added @
                  map (\<lambda>k. (run_name k, Missing # projr (diff_column base (Suc k))))
                    [i..<i + length labels]\<rparr>),
                i + length labels)
      else Inl TypeError)"
  using assms
proof (induction labels arbitrary: h i added)
  case Nil
  then have "(h r)\<lparr>columns := base @ added\<rparr> = h r" by (metis dataframe.surjective dataframe.update_convs(2) old.unit.exhaust)
  then show ?case by simp
next
  case (Cons lab rest)
  have range: "Suc i < length base" using Cons.prems(5) by simp
  have fresh: "run_name i \<notin> fst ` set (base @ added)" using Cons.prems(6) by blast
  have step: "subtract_loop h r r (lab # rest) i =
     (case diff_column base (Suc i) of
        Inl e \<Rightarrow> Inl TypeError
      | Inr vs \<Rightarrow>
          subtract_loop (h(r := (h r)\<lparr>columns := base @ added @ [(run_name i, Missing # vs)]\<rparr>))
            r r rest (Suc i))"
    using Cons.prems(1-4) range fresh by (rule subtract_step)
  have upt: "[i..<Suc (i + length rest)] = i # [Suc i..<Suc (i + length rest)]"
    by (subst upt_rec) simp
  show ?case
  proof (cases "diff_column base (Suc i)")
    case (Inl e)
    with step upt show ?thesis by (simp del: upt_Suc)
  next
    case (Inr vs)
    let ?h = "h(r := (h r)\<lparr>columns := base @ added @ [(run_name i, Missing # vs)]\<rparr>)"
    have p1: "index (?h r) = l0 # ls" using Cons.prems(1) by simp
    have p3: "columns (?h r) = base @ (added @ [(run_name i, Missing # vs)])" by simp
    have p5: "Suc i + length rest < length base" using Cons.prems(5) by simp
    have p6: "\<forall>k\<ge>Suc i. run_name k \<notin> fst ` set (base @ (added @ [(run_name i, Missing # vs)]))"
    proof (intro allI impI)
      fix k assume k: "Suc i \<le> k"
      then have "run_name k \<noteq> run_name i" by (auto dest: run_name_inj)
      moreover have "run_name k \<notin> fst ` set (base @ added)" using Cons.prems(6) k by simp
      ultimately show "run_name k \<notin> fst ` set (base @ (added @ [(run_name i, Missing # vs)]))"
        by auto
    qed
    note IH = Cons.IH [of ?h "added @ [(run_name i, Missing # vs)]" "Suc i",
        OF p1 Cons.prems(2) p3 Cons.prems(4) p5 p6]
    have "subtract_loop h r r (lab # rest) i = subtract_loop ?h r r rest (Suc i)"
      using step Inr by simp
    also note IH
    finally have eq: "subtract_loop h r r (lab # rest) i =
      (if list_all (\<lambda>k. \<not> isl (diff_column base (Suc k))) [Suc i..<Suc i + length rest]
       then Inr (?h(r := (?h r)\<lparr>columns := base @ (added @ [(run_name i, Missing # vs)]) @
                  map (\<lambda>k. (run_name k, Missing # projr (diff_column base (Suc k))))
                    [Suc i..<Suc i + length rest]\<rparr>),
                Suc i + length rest)
       else Inl TypeError)" .
    show ?thesis
      using Inr upt eq by (auto simp del: upt_Suc subtract_loop.simps simp add: fun_eq_iff)
  qed
qed

lemma subtract_background_shared:
  assumes e: "experiment_table (h r) files"
  shows "subtract_background h r r =
     (if list_all (\<lambda>k. \<not> isl (diff_column (columns (h r)) (Suc k))) [1..<length files]
      then Inr (h(r := (h r)\<lparr>columns := columns (h r) @
                  map (\<lambda>k. (run_name k, Missing # projr (diff_column (columns (h r)) (Suc k))))
                    [1..<length files]\<rparr>),
                length files - 1)
      else Inl TypeError)"
proof -
  let ?labels = "drop 2 (map fst (columns (h r)))"
  note c = experiment_table_columns [OF e]
  have ll: "1 + length ?labels = length files" using c(1) c(5) by (cases files) auto
  have p3: "columns (h r) = columns (h r) @ []" by simp
  have p5: "1 + length ?labels < length (columns (h r))" using ll c(1) by simp
  have p6: "\<forall>k\<ge>1. run_name k \<notin> fst ` set (columns (h r) @ [])" using c(3) by simp
  have "subtract_loop h r r ?labels 1 =
     (if list_all (\<lambda>k. \<not> isl (diff_column (columns (h r)) (Suc k))) [1..<1 + length ?labels]
      then Inr (h(r := (h r)\<lparr>columns := columns (h r) @ [] @
                  map (\<lambda>k. (run_name k, Missing # projr (diff_column (columns (h r)) (Suc k))))
                    [1..<1 + length ?labels]\<rparr>),
                1 + length ?labels)
      else Inl TypeError)"
    using experiment_table_index(1) [OF e] experiment_table_index(2) [OF e] p3 c(2) p5 p6
    by (rule subtract_loop_shared)
  then show ?thesis
    unfolding subtract_background_def ll by simp
qed

text \<open>With a single run column the subtraction loop does not run.\<close>

lemma subtract_background_one_run:
  assumes "iterate_over_runs fs d = Inr t" "length (columns t) = 2"
  shows "subtract_background (h(r := t)) r r = Inr (h(r := t), 0)"
proof -
  from iterate_over_runs_experiment_table [OF assms(1)] obtain files where
    e: "experiment_table t files" by blast
  have lf: "length files = 1" using experiment_table_length [OF e, of 1] assms(2) by simp
  have e': "experiment_table ((h(r := t)) r) files" using e by simp
  show ?thesis
    using subtract_background_shared [of "h(r := t)" r, OF e'] lf by simp
qed

lemma run_columns_no_text:
  assumes "list_all (\<lambda>k. \<not> isl (diff_column cols (Suc k))) ks"
  shows "\<not> list_ex (\<lambda>c. list_ex is_text (snd c))
           (map (\<lambda>k. (run_name k, Missing # projr (diff_column cols (Suc k)))) ks)"
proof -
  have "\<not> list_ex is_text (projr (diff_column cols (Suc k)))" if "k \<in> set ks" for k
  proof -
    from that assms have "\<not> isl (diff_column cols (Suc k))" by (simp add: list_all_iff)
    then have "sub_cells (drop 1 (snd (cols ! Suc k))) (drop 1 (snd (cols ! 1))) =
        Inr (projr (diff_column cols (Suc k)))"
      unfolding diff_column_def by (rule isl_projr)
    then show ?thesis by (rule sub_cells_no_text)
  qed
  then show ?thesis by (auto simp: list_ex_iff)
qed

section \<open>The averaging step\<close>

lemma nums_all_numbers: "list_all is_number cs \<Longrightarrow> nums cs = map the_number cs"
  by (induction cs rule: nums.induct) auto

lemma row_mean_all_numbers:
  "list_all is_number cs \<Longrightarrow> cs \<noteq> [] \<Longrightarrow>
   row_mean cs = Num (sum_list (map the_number cs) / real (length cs))"
  by (simp add: row_mean_def nums_all_numbers)

lemma nums_empty_iff:
  "\<not> list_ex is_text cs \<Longrightarrow> nums cs = [] \<longleftrightarrow> list_all (\<lambda>c. c = Missing) cs"
  by (induction cs rule: nums.induct) auto

lemma row_cells_no_text:
  assumes "\<not> list_ex (\<lambda>c. list_ex is_text (snd c)) sel"
    and "list_all (\<lambda>c. i < length (snd c)) sel"
  shows "\<not> list_ex is_text (row_cells sel i)"
  using assms by (auto simp: list_ex_iff list_all_iff row_cells_def)

lemma numeric_columns_no_text:
  "\<not> list_ex (\<lambda>c. list_ex is_text (snd c)) cols \<Longrightarrow> numeric_columns cols = cols"
  by (simp add: numeric_columns_def list_ex_iff)

lemma mean_axis1_eq:
  "mean_axis1 idx cols =
     map (\<lambda>i. (idx ! i, row_mean (row_cells (numeric_columns cols) i))) [0..<length idx]"
  by (simp add: mean_axis1_def Let_def numeric_columns_no_text)

text \<open>What the averaging step does to any table: it returns, with the column of the means.\<close>

lemma get_averaged_data_column_eq:
  "get_averaged_data_column h r n =
     Inr (h(r := (h r)\<lparr>columns :=
            upsert ''Mean''
              (map (\<lambda>i. row_mean (row_cells (numeric_columns (py_slice_from (- n) (columns (h r)))) i))
                 [0..<length (index (h r))])
              (columns (h r))\<rparr>))"
  by (simp add: get_averaged_data_column_def mean_axis1_eq Let_def setitem_def reindex_own_index)

text \<open>The averaging step appends one column, for any count, when the name is new.\<close>

lemma get_averaged_data_column_appends:
  assumes "get_averaged_data_column h r m = Inr h'"
    and "''Mean'' \<notin> fst ` set (columns (h r))"
  shows "\<exists>ms. length ms = length (index (h r)) \<and>
           h' = h(r := (h r)\<lparr>columns := columns (h r) @ [(''Mean'', ms)]\<rparr>)"
proof -
  let ?ms = "map (\<lambda>i. row_mean (row_cells (numeric_columns (py_slice_from (- m) (columns (h r)))) i))
               [0..<length (index (h r))]"
  from assms have "h' = h(r := (h r)\<lparr>columns := columns (h r) @ [(''Mean'', ?ms)]\<rparr>)"
    unfolding get_averaged_data_column_eq by (simp add: upsert_fresh)
  moreover have "length ?ms = length (index (h r))" by simp
  ultimately show ?thesis by (intro exI [of _ ?ms]) simp
qed

text \<open>The mean over a single column without text is the column itself.\<close>

lemma row_mean_single: "\<not> is_text c \<Longrightarrow> row_mean [c] = c"
  by (cases c) (simp_all add: row_mean_def)

lemma row_means_single_column:
  assumes "\<not> list_ex is_text vs"
  shows "map (\<lambda>i. row_mean (row_cells [(a, vs)] i)) [0..<length vs] = vs"
proof (rule nth_equalityI)
  show "length (map (\<lambda>i. row_mean (row_cells [(a, vs)] i)) [0..<length vs]) = length vs" by simp
next
  fix i
  assume "i < length (map (\<lambda>i. row_mean (row_cells [(a, vs)] i)) [0..<length vs])"
  then have i: "i < length vs" by simp
  then have "vs ! i \<in> set vs" by simp
  with assms have "\<not> is_text (vs ! i)" by (auto simp: list_ex_iff)
  then have "row_mean [vs ! i] = vs ! i" by (rule row_mean_single)
  with i show "map (\<lambda>i. row_mean (row_cells [(a, vs)] i)) [0..<length vs] ! i = vs ! i"
    by (simp add: row_cells_def del: upt_Suc)
qed

text \<open>
  The table of a folder with a single run file: its background column holds the label
  \<^verbatim>\<open>BG\<close>, so \<^verbatim>\<open>Pixel\<close> is its only numeric column.
\<close>

lemma experiment_table_one_run:
  assumes e: "experiment_table t files" and lf: "length files = 1"
  shows "numeric_columns (columns t) = [(''Pixel'', Missing # map (\<lambda>x. Num (real x)) [1..<1025])]"
proof -
  let ?pix = "Missing # map (\<lambda>x. Num (real x)) [1..<1025]"
  have len: "length (columns t) = 2"
    using experiment_table_columns(1) [OF e] lf by simp
  then obtain c0 c1 where cs: "columns t = [c0, c1]"
    by (cases "columns t"; cases "tl (columns t)"; cases "tl (tl (columns t))") auto
  from e have names: "map fst (columns t) = ''Pixel'' # files"
    and heads: "map (\<lambda>c. hd (snd c)) (columns t) =
       Missing # Str ''BG'' # map (\<lambda>x. Num (real x)) [1..<length files]"
    and lens: "list_all (\<lambda>c. length (snd c) = 1025) (columns t)"
    and pix: "snd (hd (columns t)) = ?pix"
    by (simp_all add: experiment_table_def)
  have c0: "c0 = (''Pixel'', ?pix)"
    using names pix cs by (cases c0) simp
  have "hd (snd c1) = Str ''BG''" using heads cs by simp
  moreover have "snd c1 \<noteq> []" using lens cs by auto
  ultimately have "Str ''BG'' \<in> set (snd c1)" by (metis hd_in_set)
  then have t1: "list_ex is_text (snd c1)"
    by (auto simp: list_ex_iff intro!: bexI [of _ "Str ''BG''"])
  have t0: "\<not> list_ex is_text ?pix" by (auto simp: list_ex_iff)
  show ?thesis
    using t0 t1 by (simp add: numeric_columns_def cs c0 del: upt_Suc)
qed

section \<open>One pass of the main loop\<close>

text \<open>The pass for a folder with at least two run files.\<close>

lemma process_folder_eq:
  assumes it: "iterate_over_runs fs d = Inr t0" and e: "experiment_table t0 files"
    and N: "2 \<le> length files"
  shows "process_folder fs h r d =
     (if list_all (\<lambda>k. \<not> isl (diff_column (columns t0) (Suc k))) [1..<length files]
      then Inr (t0\<lparr>columns := columns t0 @
              map (\<lambda>k. (run_name k, Missing # projr (diff_column (columns t0) (Suc k))))
                [1..<length files] @
              [(''Mean'', map (\<lambda>i. row_mean (row_cells
                  (map (\<lambda>k. (run_name k, Missing # projr (diff_column (columns t0) (Suc k))))
                     [1..<length files]) i)) [0..<1025])]\<rparr>)
      else Inl TypeError)"
proof -
  let ?runs = "map (\<lambda>k. (run_name k, Missing # projr (diff_column (columns t0) (Suc k))))
                [1..<length files]"
  let ?ok = "list_all (\<lambda>k. \<not> isl (diff_column (columns t0) (Suc k))) [1..<length files]"
  let ?t1 = "t0\<lparr>columns := columns t0 @ ?runs\<rparr>"
  have e': "experiment_table ((h(r := t0)) r) files" using e by simp
  have sb: "subtract_background (h(r := t0)) r r =
      (if ?ok then Inr (h(r := ?t1), length files - 1) else Inl TypeError)"
    using subtract_background_shared [of "h(r := t0)" r, OF e'] by simp
  note c = experiment_table_columns [OF e]
  have idx: "length (index t0) = 1025" using experiment_table_index(3) [OF e] .
  show ?thesis
  proof (cases ?ok)
    case nok: False
    with sb it show ?thesis by (simp add: process_folder_def)
  next
    case ok: True
    have lr: "length ?runs = length files - 1" by simp
    have pos: "0 < length ?runs" using N by simp
    have sel: "py_slice_from (- int (length files - 1)) (columns t0 @ ?runs) = ?runs"
      using py_slice_from_trailing [OF pos, of "columns t0"] by simp
    have nt: "\<not> list_ex (\<lambda>c. list_ex is_text (snd c)) ?runs"
      using ok by (rule run_columns_no_text)
    have num: "numeric_columns ?runs = ?runs"
      using nt by (rule numeric_columns_no_text)
    have fresh: "''Mean'' \<notin> fst ` set (columns t0 @ ?runs)"
      using c(4) run_name_not_Mean by (auto simp: image_iff) metis
    have "get_averaged_data_column (h(r := ?t1)) r (int (length files - 1)) =
        Inr (h(r := ?t1\<lparr>columns := columns ?t1 @
           [(''Mean'', map (\<lambda>i. row_mean (row_cells ?runs i)) [0..<1025])]\<rparr>))"
      unfolding get_averaged_data_column_eq
      using sel num fresh idx by (simp add: upsert_fresh del: upt_Suc)
    with sb ok it show ?thesis by (simp add: process_folder_def del: upt_Suc)
  qed
qed

text \<open>
  The pass for a folder with a single run file: no column is subtracted, the count is 0,
  the slice \<^verbatim>\<open>iloc[:, -0:]\<close> holds every column, and the column appended is the mean over
  the numeric one among them.
\<close>

lemma get_averaged_data_column_one_run:
  assumes it: "iterate_over_runs fs d = Inr t0" and len: "length (columns t0) = 2"
  shows "get_averaged_data_column (h(r := t0)) r (int 0) =
     Inr (h(r := t0\<lparr>columns := columns t0 @
            [(''Mean'', Missing # map (\<lambda>x. Num (real x)) [1..<1025])]\<rparr>))"
proof -
  let ?pix = "Missing # map (\<lambda>x. Num (real x)) [1..<1025]"
  from iterate_over_runs_experiment_table [OF it] obtain files where
    e: "experiment_table t0 files" by blast
  have lf: "length files = 1" using experiment_table_length [OF e, of 1] len by simp
  note c = experiment_table_columns [OF e]
  have idx: "length (index t0) = 1025" using experiment_table_index(3) [OF e] .
  have num: "numeric_columns (columns t0) = [(''Pixel'', ?pix)]"
    using e lf by (rule experiment_table_one_run)
  have "\<not> list_ex is_text ?pix" by (auto simp: list_ex_iff)
  from row_means_single_column [OF this, of "''Pixel''"]
  have means: "map (\<lambda>i. row_mean (row_cells [(''Pixel'', ?pix)] i)) [0..<1025] = ?pix"
    by simp
  have sl: "py_slice_from (- int 0) (columns ((h(r := t0)) r)) = columns t0"
    by (simp add: py_slice_from_zero)
  have ix: "length (index ((h(r := t0)) r)) = 1025" using idx by simp
  have fresh: "''Mean'' \<notin> fst ` set (columns ((h(r := t0)) r))" using c(4) by simp
  show ?thesis
    unfolding get_averaged_data_column_eq sl ix num means upsert_fresh [OF fresh]
    by simp
qed

lemma process_folder_one_run:
  assumes it: "iterate_over_runs fs d = Inr t0" and len: "length (columns t0) = 2"
  shows "process_folder fs h r d =
     Inr (t0\<lparr>columns := columns t0 @
            [(''Mean'', Missing # map (\<lambda>x. Num (real x)) [1..<1025])]\<rparr>)"
  using it subtract_background_one_run [OF it len, of h r]
    get_averaged_data_column_one_run [OF it len, of h r]
  by (simp add: process_folder_def)

text \<open>The finished table of a folder with at least two run files, cell by cell.\<close>

lemma finished_table_cells:
  assumes it: "iterate_over_runs fs d = Inr t0" and len: "length (columns t0) = Suc N"
    and N: "2 \<le> N" and pf: "process_folder fs h r d = Inr t"
  shows "\<exists>ds. t = t0\<lparr>columns := columns t0 @ map (\<lambda>k. (run_name k, Missing # ds k)) [1..<N] @
              [(''Mean'', map (\<lambda>i. row_mean (map (\<lambda>k. (Missing # ds k) ! i) [1..<N])) [0..<1025])]\<rparr> \<and>
           (\<forall>k\<in>set [1..<N]. diff_column (columns t0) (Suc k) = Inr (ds k) \<and>
              length (ds k) = 1024 \<and> \<not> list_ex is_text (ds k))"
proof -
  from iterate_over_runs_experiment_table [OF it] obtain files where
    e: "experiment_table t0 files" by blast
  note c = experiment_table_columns [OF e]
  have lf: "length files = N" using c(1) len by simp
  have N': "2 \<le> length files" using lf N by simp
  let ?ds = "\<lambda>k. projr (diff_column (columns t0) (Suc k))"
  let ?runs = "map (\<lambda>k. (run_name k, Missing # ?ds k)) [1..<N]"
  have rc: "row_cells ?runs i = map (\<lambda>k. (Missing # ?ds k) ! i) [1..<N]" for i
    by (simp add: row_cells_def comp_def)
  from process_folder_eq [OF it e N', of h r] pf lf
  have ok: "list_all (\<lambda>k. \<not> isl (diff_column (columns t0) (Suc k))) [1..<N]"
    and t: "t = t0\<lparr>columns := columns t0 @ ?runs @
              [(''Mean'', map (\<lambda>i. row_mean (row_cells ?runs i)) [0..<1025])]\<rparr>"
    by (auto split: if_splits)
  have "diff_column (columns t0) (Suc k) = Inr (?ds k) \<and>
        length (?ds k) = 1024 \<and> \<not> list_ex is_text (?ds k)" if k: "k \<in> set [1..<N]" for k
  proof -
    from ok k have "\<not> isl (diff_column (columns t0) (Suc k))" by (simp add: list_all_iff)
    then have d: "diff_column (columns t0) (Suc k) = Inr (?ds k)" by (rule isl_projr)
    then have sc: "sub_cells (drop 1 (snd (columns t0 ! Suc k))) (drop 1 (snd (columns t0 ! 1)))
        = Inr (?ds k)"
      by (simp add: diff_column_def)
    have "Suc k < length (columns t0)" "1 < length (columns t0)" using len k by auto
    then have "length (snd (columns t0 ! Suc k)) = 1025" "length (snd (columns t0 ! 1)) = 1025"
      using c(2) by (simp_all add: list_all_length)
    with sub_cells_length [OF sc] have "length (?ds k) = 1024" by simp
    with d sub_cells_no_text [OF sc] show ?thesis by (intro conjI)
  qed
  then have "\<forall>k\<in>set [1..<N]. diff_column (columns t0) (Suc k) = Inr (?ds k) \<and>
        length (?ds k) = 1024 \<and> \<not> list_ex is_text (?ds k)" by blast
  with t rc show ?thesis by (intro exI [of _ ?ds]) simp
qed

lemma finished_table_positions:
  assumes t: "t = t0\<lparr>columns := columns t0 @ map (\<lambda>k. (run_name k, Missing # ds k)) [1..<N] @
              [(''Mean'', ms)]\<rparr>"
    and len: "length (columns t0) = Suc N" and N: "1 \<le> N"
  shows "length (columns t) = 2 * N + 1"
    and "columns t ! (2 * N) = (''Mean'', ms)"
    and "1 \<le> k \<Longrightarrow> k < N \<Longrightarrow> columns t ! (N + k) = (run_name k, Missing # ds k)"
    and "j \<le> N \<Longrightarrow> columns t ! j = columns t0 ! j"
proof -
  let ?runs = "map (\<lambda>k. (run_name k, Missing # ds k)) [1..<N]"
  have c: "columns t = columns t0 @ ?runs @ [(''Mean'', ms)]" using t by simp
  have lr: "length ?runs = N - 1" by simp
  show "length (columns t) = 2 * N + 1" using c len N by simp
  have "(columns t0 @ ?runs @ [(''Mean'', ms)]) ! (2 * N) = (?runs @ [(''Mean'', ms)]) ! (N - 1)"
    using len N by (simp add: nth_append)
  also have "\<dots> = (''Mean'', ms)" by (simp add: nth_append)
  finally show "columns t ! (2 * N) = (''Mean'', ms)" using c by simp
  show "columns t ! (N + k) = (run_name k, Missing # ds k)" if "1 \<le> k" "k < N"
  proof -
    have "(columns t0 @ ?runs @ [(''Mean'', ms)]) ! (N + k) = (?runs @ [(''Mean'', ms)]) ! (k - 1)"
      using len that by (simp add: nth_append)
    also have "\<dots> = ?runs ! (k - 1)"
    proof -
      have "k - 1 < length ?runs" using that by simp
      then show ?thesis by (simp only: nth_append if_True)
    qed
    also have "\<dots> = (run_name k, Missing # ds k)"
    proof -
      have "k - 1 < length [1..<N]" "[1..<N] ! (k - 1) = k" using that by simp_all
      then show ?thesis by (simp del: upt_Suc)
    qed
    finally show ?thesis using c by simp
  qed
  show "columns t ! j = columns t0 ! j" if "j \<le> N"
    using c len that by (simp add: nth_append)
qed

text \<open>
  The pass of the main loop returns a table when the folder lists at least one run file
  and each of its run files reads well.
\<close>

lemma process_folder_total:
  assumes l: "listdir fs d = Inr names" and dn: "distinct names"
    and good: "\<forall>f\<in>set names. endswith f ''.asc'' \<longrightarrow> reads_well fs (d @ f)"
    and one: "1 \<le> length (filter (\<lambda>f. endswith f ''.asc'') names)"
  shows "\<exists>t. process_folder fs h r d = Inr t"
proof -
  let ?files = "filter (\<lambda>f. endswith f ''.asc'') names"
  have "\<not> list_ex (\<lambda>c. list_ex is_text (snd c)) (columns pixel_frame)"
    by (simp add: pixel_frame_def list_ex_iff)
  from add_runs_total [OF good this] obtain agg where
    a: "add_runs fs d pixel_frame names = Inr agg"
    and nt: "\<not> list_ex (\<lambda>c. list_ex is_text (snd c)) (columns agg)" by blast
  have "\<forall>f\<in>set names. endswith f ''.asc'' \<longrightarrow> f \<notin> fst ` set (columns pixel_frame)"
    using Pixel_not_asc by (auto simp: pixel_frame_def)
  from add_runs_columns [OF a dn this] obtain new where
    new: "columns agg = columns pixel_frame @ new" "map fst new = ?files"
    by (elim exE conjE) (rule that; assumption)
  have "length new = length ?files" using new(2) by (metis length_map)
  then have len: "length (columns agg) = Suc (Suc (length ?files - 1))"
    using new(1) one by (simp add: pixel_frame_def)
  have idx: "index agg = map int [0..<1024]"
    using add_runs_index [OF a] by (simp add: pixel_frame_def)
  have rect: "rectangular agg"
    using add_runs_rectangular [OF a rectangular_pixel_frame] .
  let ?row = "Missing # Str ''BG'' # map (\<lambda>x. Num (real x)) [1..<Suc (length ?files - 1)]"
  let ?t0 = "\<lparr>index = map int [0..<Suc 1024],
              columns = map2 (\<lambda>c v. (fst c, v # snd c)) (columns agg) ?row\<rparr>"
  have n: "add_run_numbers agg = Inr ?t0"
    using idx rect len by (rule add_run_numbers_rows)
  have it: "iterate_over_runs fs d = Inr ?t0"
    using l a n by (simp add: iterate_over_runs_def del: add_runs.simps)
  have e: "experiment_table ?t0 ?files"
    using it l dn by (rule iterate_over_runs_files)
  have lr: "length (columns agg) = length ?row" using len by (simp del: upt_Suc)
  have data: "drop 1 (snd (columns ?t0 ! j)) = snd (columns agg ! j)" if "j < length (columns agg)" for j
    using that lr by (simp del: upt_Suc)
  have cells: "\<not> list_ex is_text (snd (columns agg ! j))" if "j < length (columns agg)" for j
  proof -
    from that have "columns agg ! j \<in> set (columns agg)" by simp
    with nt show ?thesis by (auto simp: list_ex_iff)
  qed
  have ok: "list_all (\<lambda>k. \<not> isl (diff_column (columns ?t0) (Suc k))) [1..<length ?files]"
  proof -
    have "\<not> isl (diff_column (columns ?t0) (Suc k))" if k: "k \<in> set [1..<length ?files]" for k
    proof -
      have j: "Suc k < length (columns agg)" "1 < length (columns agg)" using k len by auto
      show ?thesis
        unfolding diff_column_def data [OF j(1)] data [OF j(2)]
        using cells [OF j(1)] cells [OF j(2)] by (rule sub_cells_no_text_total)
    qed
    then show ?thesis by (simp add: list_all_iff)
  qed
  show ?thesis
  proof (cases "length ?files = 1")
    case True
    then have "length (columns ?t0) = 2" using lr by (simp del: upt_Suc)
    from process_folder_one_run [OF it this, of h r] show ?thesis by simp
  next
    case False
    with one have "2 \<le> length ?files" by simp
    from process_folder_eq [OF it e this, of h r] ok show ?thesis by simp
  qed
qed

section \<open>The example folders\<close>

lemma asc_names:
  "endswith ''run1.asc'' ''.asc''" "endswith ''run2.asc'' ''.asc''" "endswith ''run3.asc'' ''.asc''"
  "\<not> endswith ''notes.txt'' ''.asc''"
  by (simp_all add: endswith_def)

lemma add_runs_run_file:
  assumes "endswith f ''.asc''" "read_csv fs (d @ f) = Inr (run_file v)"
    and "index df = map int [0..<1024]" "f \<notin> fst ` set (columns df)"
  shows "add_runs fs d df (f # rest) =
     add_runs fs d (df\<lparr>columns := columns df @ [(f, replicate 1024 (Num v))]\<rparr>) rest"
proof -
  have "iloc_col (run_file v) 1 = Inr (zip (map int [0..<1024]) (replicate 1024 (Num v)))"
    by (simp add: iloc_col_def run_file_def)
  moreover have "reindex (map int [0..<1024]) (zip (map int [0..<1024]) (replicate 1024 (Num v)))
      = Inr (replicate 1024 (Num v))"
    by (rule reindex_same) simp
  ultimately show ?thesis
    using assms by (simp add: asc_read_def setitem_def upsert_fresh)
qed

lemma read_csv_700:
  "read_csv fs700 (''700/'' @ ''run1.asc'') = Inr (run_file 10)"
  "read_csv fs700 (''700/'' @ ''run2.asc'') = Inr (run_file 15)"
  "read_csv fs700 (''700/'' @ ''run3.asc'') = Inr (run_file 12)"
  by (simp_all add: fs700_def)

lemma add_runs_700: "add_runs fs700 ''700/'' pixel_frame [''run1.asc'', ''run2.asc'', ''run3.asc''] = Inr agg700"
proof -
  let ?d1 = "pixel_frame\<lparr>columns := columns pixel_frame @ [(''run1.asc'', replicate 1024 (Num 10))]\<rparr>"
  let ?d2 = "?d1\<lparr>columns := columns ?d1 @ [(''run2.asc'', replicate 1024 (Num 15))]\<rparr>"
  let ?d3 = "?d2\<lparr>columns := columns ?d2 @ [(''run3.asc'', replicate 1024 (Num 12))]\<rparr>"
  have "add_runs fs700 ''700/'' pixel_frame [''run1.asc'', ''run2.asc'', ''run3.asc'']
      = add_runs fs700 ''700/'' ?d1 [''run2.asc'', ''run3.asc'']"
    by (rule add_runs_run_file [OF asc_names(1) read_csv_700(1)]) (simp_all add: pixel_frame_def)
  also have "\<dots> = add_runs fs700 ''700/'' ?d2 [''run3.asc'']"
    by (rule add_runs_run_file [OF asc_names(2) read_csv_700(2)]) (simp_all add: pixel_frame_def)
  also have "\<dots> = add_runs fs700 ''700/'' ?d3 []"
    by (rule add_runs_run_file [OF asc_names(3) read_csv_700(3)]) (simp_all add: pixel_frame_def)
  also have "\<dots> = Inr agg700"
    by (simp add: pixel_frame_def agg700_def)
  finally show ?thesis .
qed

lemma upt_1_3: "[1..<3] = [1, 2]" "[Suc 0..<3] = [1, 2]"
  by (simp_all add: upt_rec)

lemma run_names_1_2:
  "run_name 1 = ''Run: 1''" "run_name 2 = ''Run: 2''"
  "run_name (Suc 0) = ''Run: 1''" "run_name (Suc (Suc 0)) = ''Run: 2''"
  by (simp_all add: run_name_def str_nat.simps digit_char_def)

lemma iterate_over_runs_700: "iterate_over_runs fs700 ''700/'' = Inr t700"
proof -
  have l: "listdir fs700 ''700/'' = Inr [''run1.asc'', ''run2.asc'', ''run3.asc'']"
    by (simp add: fs700_def)
  have "add_run_numbers agg700 = Inr t700"
    by (subst add_run_numbers_rows [where n = 1024 and m = 2])
       (simp_all add: agg700_def t700_def rectangular_def upt_1_3)
  then show ?thesis
    by (simp add: iterate_over_runs_def l add_runs_700 del: add_runs.simps)
qed

lemma sub_cells_replicate:
  "sub_cells (replicate n (Num a)) (replicate n (Num b)) = Inr (replicate n (Num (a - b)))"
  by (induction n) auto

lemma experiment_table_700: "experiment_table t700 [''run1.asc'', ''run2.asc'', ''run3.asc'']"
proof -
  have "listdir fs700 ''700/'' = Inr [''run1.asc'', ''run2.asc'', ''run3.asc'']"
    by (simp add: fs700_def)
  from iterate_over_runs_files [OF iterate_over_runs_700 this]
  show ?thesis by (simp add: asc_names)
qed

lemma subtract_background_700:
  "subtract_background (h(r := t700)) r r = Inr (h(r := s700), 2)"
proof -
  have e: "experiment_table ((h(r := t700)) r) [''run1.asc'', ''run2.asc'', ''run3.asc'']"
    using experiment_table_700 by simp
  show ?thesis
    by (subst subtract_background_shared [of "h(r := t700)" r, OF e])
       (simp add: upt_1_3 t700_def s700_def diff_column_def sub_cells_replicate run_names_1_2)
qed

lemma row_means_two:
  "map (\<lambda>i. row_mean (row_cells [(a, Missing # replicate n (Num x)), (b, Missing # replicate n (Num y))] i))
     [0..<Suc n] = Missing # replicate n (Num ((x + y) / 2))"
proof (rule nth_equalityI)
  show "length (map (\<lambda>i. row_mean (row_cells [(a, Missing # replicate n (Num x)), (b, Missing # replicate n (Num y))] i))
     [0..<Suc n]) = length (Missing # replicate n (Num ((x + y) / 2)))" by simp
next
  fix i
  assume "i < length (map (\<lambda>i. row_mean (row_cells [(a, Missing # replicate n (Num x)), (b, Missing # replicate n (Num y))] i))
     [0..<Suc n])"
  then have i: "i < Suc n" by simp
  show "map (\<lambda>i. row_mean (row_cells [(a, Missing # replicate n (Num x)), (b, Missing # replicate n (Num y))] i))
     [0..<Suc n] ! i = (Missing # replicate n (Num ((x + y) / 2))) ! i"
  proof (cases i)
    case 0
    then show ?thesis
      by (simp add: row_mean_def row_cells_def nth_map_upt [of 0 "Suc n" 0, simplified] del: upt_Suc)
  next
    case (Suc j)
    with i have "j < n" by simp
    with Suc i show ?thesis
      using nth_map_upt [of i "Suc n" 0 "\<lambda>i. row_mean (row_cells [(a, Missing # replicate n (Num x)), (b, Missing # replicate n (Num y))] i)"]
      by (simp add: row_mean_def row_cells_def del: upt_Suc)
  qed
qed

lemma get_averaged_data_column_700:
  "get_averaged_data_column (h(r := s700)) r 2 = Inr (h(r := f700))"
proof -
  have sel: "py_slice_from (- 2) (columns s700) =
      [(''Run: 1'', Missing # replicate 1024 (Num 5)), (''Run: 2'', Missing # replicate 1024 (Num 2))]"
    by (simp add: py_slice_from_def s700_def)
  have len: "length (index s700) = 1025" by (simp add: s700_def)
  have means: "map (\<lambda>i. row_mean (row_cells
        [(''Run: 1'', Missing # replicate 1024 (Num 5)), (''Run: 2'', Missing # replicate 1024 (Num 2))] i))
      [0..<1025] = Missing # replicate 1024 (Num 3.5)"
    using row_means_two [of "''Run: 1''" 1024 5 "''Run: 2''" 2] by simp
  have num: "numeric_columns
        [(''Run: 1'', Missing # replicate 1024 (Num 5)), (''Run: 2'', Missing # replicate 1024 (Num 2))] =
        [(''Run: 1'', Missing # replicate 1024 (Num 5)), (''Run: 2'', Missing # replicate 1024 (Num 2))]"
    by (rule numeric_columns_no_text) (simp add: list_ex_iff)
  show ?thesis
    unfolding get_averaged_data_column_eq
    by (simp add: sel len num means) (simp add: s700_def f700_def)
qed

lemma process_folder_700: "process_folder fs700 h r ''700/'' = Inr f700"
  by (simp add: process_folder_def iterate_over_runs_700 subtract_background_700
      get_averaged_data_column_700)

lemma gap_table_mean:
  "get_averaged_data_column (heap0(0 := gap_table)) 0 (int 2) =
     Inr (heap0(0 := gap_table\<lparr>columns := columns gap_table @
                        [(''Mean'', [Missing, Num 3.5, Num 2])]\<rparr>))"
  by (simp add: get_averaged_data_column_eq py_slice_from_def Let_def gap_table_def
      numeric_columns_def row_cells_def row_mean_def upt_rec)

lemma iterate_over_runs_one_run: "iterate_over_runs fs_one_run ''700/'' = Inr one_run_table"
proof -
  have l: "listdir fs_one_run ''700/'' = Inr [''notes.txt'', ''run1.asc'']"
    by (simp add: fs_one_run_def)
  have rd: "read_csv fs_one_run (''700/'' @ ''run1.asc'') = Inr (run_file 10)"
    by (simp add: fs_one_run_def)
  let ?d1 = "pixel_frame\<lparr>columns := columns pixel_frame @ [(''run1.asc'', replicate 1024 (Num 10))]\<rparr>"
  have "add_runs fs_one_run ''700/'' pixel_frame [''notes.txt'', ''run1.asc'']
      = add_runs fs_one_run ''700/'' pixel_frame [''run1.asc'']"
    by (simp add: asc_names)
  also have "\<dots> = add_runs fs_one_run ''700/'' ?d1 []"
    by (rule add_runs_run_file [OF asc_names(1) rd]) (simp_all add: pixel_frame_def)
  finally have a: "add_runs fs_one_run ''700/'' pixel_frame [''notes.txt'', ''run1.asc''] = Inr ?d1"
    by simp
  have "add_run_numbers ?d1 = Inr one_run_table"
    by (subst add_run_numbers_rows [where n = 1024 and m = 0])
       (simp_all add: pixel_frame_def one_run_table_def rectangular_def)
  then show ?thesis
    by (simp add: iterate_over_runs_def l a del: add_runs.simps)
qed


lemma reindex_two_rows:
  assumes "0 < n"
  shows "reindex (map int [0..<Suc (Suc n)]) [(0, a), (1, b)] = Inr (a # b # replicate n Missing)"
proof -
  let ?look = "\<lambda>l. case map_of [(0::int, a), (1, b)] l of None \<Rightarrow> Missing | Some c \<Rightarrow> c"
  have u: "[0..<Suc (Suc n)] = 0 # Suc 0 # [Suc (Suc 0)..<Suc (Suc n)]"
    by (simp add: upt_conv_Cons)
  have "map ?look (map int [Suc (Suc 0)..<Suc (Suc n)]) =
      map (\<lambda>x. Missing) [Suc (Suc 0)..<Suc (Suc n)]"
    by (auto simp del: upt_Suc)
  also have "\<dots> = replicate n Missing" by (simp add: map_replicate_const del: upt_Suc)
  finally have rest: "map ?look (map int [Suc (Suc 0)..<Suc (Suc n)]) = replicate n Missing" .
  have "length (map fst [(0::int, a), (1, b)]) \<noteq> length (map int [0..<Suc (Suc n)])"
    using assms by simp
  then have ne: "map fst [(0::int, a), (1, b)] \<noteq> map int [0..<Suc (Suc n)]" by metis
  have "map ?look (map int [0..<Suc (Suc n)]) = a # b # replicate n Missing"
    unfolding u using rest by simp
  with ne show ?thesis by (simp add: reindex_def del: upt_Suc)
qed

lemma add_runs_short_file:
  assumes "endswith f ''.asc''" "read_csv fs (d @ f) = Inr short_file"
    and "index df = map int [0..<1024]" "f \<notin> fst ` set (columns df)"
  shows "add_runs fs d df (f # rest) =
     add_runs fs d (df\<lparr>columns := columns df @ [(f, Num 15 # Num 15 # replicate 1022 Missing)]\<rparr>) rest"
proof -
  have il: "iloc_col short_file 1 = Inr [(0, Num 15), (1, Num 15)]"
    by (simp add: iloc_col_def short_file_def)
  have n: "(1024::nat) = Suc (Suc 1022)" by simp
  have "reindex (map int [0..<Suc (Suc 1022)]) [(0, Num 15), (1, Num 15)] =
      Inr (Num 15 # Num 15 # replicate 1022 Missing)"
    by (rule reindex_two_rows) simp
  then have re: "reindex (map int [0..<1024]) [(0, Num 15), (1, Num 15)] =
      Inr (Num 15 # Num 15 # replicate 1022 Missing)"
    by (simp only: n [symmetric])
  show ?thesis
    using assms il re by (simp add: asc_read_def setitem_def upsert_fresh del: upt_Suc)
qed

lemma read_csv_short:
  "read_csv fs_short (''700/'' @ ''run1.asc'') = Inr (run_file 10)"
  "read_csv fs_short (''700/'' @ ''run2.asc'') = Inr short_file"
  "read_csv fs_short (''700/'' @ ''run3.asc'') = Inr (run_file 12)"
  by (simp_all add: fs_short_def)

lemma iterate_over_runs_short: "iterate_over_runs fs_short ''700/'' = Inr t_short"
proof -
  have l: "listdir fs_short ''700/'' = Inr [''run1.asc'', ''run2.asc'', ''run3.asc'']"
    by (simp add: fs_short_def)
  let ?d1 = "pixel_frame\<lparr>columns := columns pixel_frame @ [(''run1.asc'', replicate 1024 (Num 10))]\<rparr>"
  let ?d2 = "?d1\<lparr>columns := columns ?d1 @
               [(''run2.asc'', Num 15 # Num 15 # replicate 1022 Missing)]\<rparr>"
  let ?d3 = "?d2\<lparr>columns := columns ?d2 @ [(''run3.asc'', replicate 1024 (Num 12))]\<rparr>"
  have "add_runs fs_short ''700/'' pixel_frame [''run1.asc'', ''run2.asc'', ''run3.asc'']
      = add_runs fs_short ''700/'' ?d1 [''run2.asc'', ''run3.asc'']"
    by (rule add_runs_run_file [OF asc_names(1) read_csv_short(1)]) (simp_all add: pixel_frame_def)
  also have "\<dots> = add_runs fs_short ''700/'' ?d2 [''run3.asc'']"
    by (rule add_runs_short_file [OF asc_names(2) read_csv_short(2)]) (simp_all add: pixel_frame_def)
  also have "\<dots> = add_runs fs_short ''700/'' ?d3 []"
    by (rule add_runs_run_file [OF asc_names(3) read_csv_short(3)]) (simp_all add: pixel_frame_def)
  finally have a: "add_runs fs_short ''700/'' pixel_frame [''run1.asc'', ''run2.asc'', ''run3.asc'']
      = Inr ?d3" by simp
  have "add_run_numbers ?d3 = Inr t_short"
    by (subst add_run_numbers_rows [where n = 1024 and m = 2])
       (simp_all add: pixel_frame_def t_short_def rectangular_def upt_1_3)
  then show ?thesis
    by (simp add: iterate_over_runs_def l a del: add_runs.simps)
qed

lemma experiment_table_short: "experiment_table t_short [''run1.asc'', ''run2.asc'', ''run3.asc'']"
proof -
  have "listdir fs_short ''700/'' = Inr [''run1.asc'', ''run2.asc'', ''run3.asc'']"
    by (simp add: fs_short_def)
  from iterate_over_runs_files [OF iterate_over_runs_short this]
  show ?thesis by (simp add: asc_names)
qed

lemma sub_cells_missing:
  "sub_cells (replicate n Missing) (replicate n c) = Inr (replicate n Missing)"
  by (induction n) auto

lemma replicate_1024: "replicate 1024 x = x # x # replicate 1022 x"
proof -
  have "(1024::nat) = Suc (Suc 1022)" by simp
  then have "replicate 1024 x = replicate (Suc (Suc 1022)) x" by (rule arg_cong)
  then show ?thesis by (simp only: replicate_Suc)
qed

lemma sub_cells_short:
  "sub_cells (Num 15 # Num 15 # replicate 1022 Missing) (replicate 1024 (Num 10)) =
     Inr (Num 5 # Num 5 # replicate 1022 Missing)"
  by (simp add: replicate_1024 [of "Num 10"] sub_cells_missing)

text \<open>
  The finished table of the folder with the short file: \<^verbatim>\<open>Run: 1\<close> has values in the
  first two data rows only.
\<close>

lemma process_folder_short:
  "process_folder fs_short h r ''700/'' =
     Inr (t_short\<lparr>columns := columns t_short @
            [(''Run: 1'', Missing # Num 5 # Num 5 # replicate 1022 Missing),
             (''Run: 2'', Missing # replicate 1024 (Num 2)),
             (''Mean'', map (\<lambda>i. row_mean (row_cells
                 [(''Run: 1'', Missing # Num 5 # Num 5 # replicate 1022 Missing),
                  (''Run: 2'', Missing # replicate 1024 (Num 2))] i)) [0..<1025])]\<rparr>)"
proof -
  have d1: "diff_column (columns t_short) (Suc (Suc 0)) = Inr (Num 5 # Num 5 # replicate 1022 Missing)"
    by (simp add: diff_column_def t_short_def sub_cells_short)
  have d2: "diff_column (columns t_short) 3 = Inr (replicate 1024 (Num 2))"
    by (simp add: diff_column_def t_short_def sub_cells_replicate)
  have N: "2 \<le> length [''run1.asc'', ''run2.asc'', ''run3.asc'']" by simp
  have lf: "length [''run1.asc'', ''run2.asc'', ''run3.asc''] = 3" by simp
  show ?thesis
    unfolding process_folder_eq [OF iterate_over_runs_short experiment_table_short N] lf
    by (simp add: upt_1_3 d1 d2 run_names_1_2 del: upt_Suc)
qed

section \<open>The claims\<close>

text \<open>
  C1: in the main loop (the process-wide \<^verbatim>\<open>df\<close> is the table passed in), for an
  experiment table with \<open>N\<close> run columns, every \<open>k\<close> from 1 to \<open>N - 1\<close> and every data row
  from 1 to 1024: the column \<^verbatim>\<open>Run: k\<close> that \<^verbatim>\<open>subtract_background\<close> appends (at
  position \<open>N + k\<close>) holds in that row the cell of the \<open>(k + 1)\<close>-th raw run column minus the
  cell of the first raw run column, the background.
\<close>

theorem subtract_background_values:
  assumes "iterate_over_runs fs directory = Inr t"
    and "length (columns t) = Suc N"
    and "subtract_background (h(r := t)) r r = Inr (h', n)"
    and "1 \<le> k" and "k < N" and "1 \<le> row" and "row \<le> 1024"
  shows "\<exists>vs. column (h' r) (run_name k) = Some vs \<and>
           columns (h' r) ! (N + k) = (run_name k, vs) \<and>
           cell_sub (cell_at t (Suc k) row) (cell_at t 1 row) = Inr (vs ! row)"
proof -
  from iterate_over_runs_experiment_table [OF assms(1)] obtain files where
    e: "experiment_table t files" by blast
  note c = experiment_table_columns [OF e]
  have N: "length files = N" using c(1) assms(2) by simp
  let ?d = "\<lambda>k. projr (diff_column (columns t) (Suc k))"
  let ?runs = "map (\<lambda>k. (run_name k, Missing # ?d k)) [1..<N]"
  have e': "experiment_table ((h(r := t)) r) files" using e by simp
  have sb: "subtract_background (h(r := t)) r r =
      (if list_all (\<lambda>k. \<not> isl (diff_column (columns t) (Suc k))) [1..<N]
       then Inr (h(r := t\<lparr>columns := columns t @ ?runs\<rparr>), N - 1) else Inl TypeError)"
    using subtract_background_shared [of "h(r := t)" r, OF e'] N by simp
  with assms(3) have ok: "list_all (\<lambda>k. \<not> isl (diff_column (columns t) (Suc k))) [1..<N]"
    and h': "h' = h(r := t\<lparr>columns := columns t @ ?runs\<rparr>)"
    by (auto split: if_splits)
  have kin: "k \<in> set [1..<N]" using assms(4,5) by simp
  have cols: "columns (h' r) = columns t @ ?runs" using h' by simp
  have look: "column (h' r) (run_name k) = Some (Missing # ?d k)"
  proof -
    have "map_of (columns t @ ?runs) (run_name k) = map_of ?runs (run_name k)"
      using c(3) by (rule map_of_append_fresh)
    also have "\<dots> = Some (Missing # ?d k)"
      using kin by (rule map_of_run_columns)
    finally show ?thesis unfolding column_def cols .
  qed
  have pos: "columns (h' r) ! (N + k) = (run_name k, Missing # ?d k)"
  proof -
    have "(columns t @ ?runs) ! (N + k) = ?runs ! (k - 1)"
      using assms(2,4) by (simp add: nth_append)
    also have "\<dots> = (run_name k, Missing # ?d k)"
    proof -
      have "k - 1 < length [1..<N]" "[1..<N] ! (k - 1) = k"
        using assms(4,5) by simp_all
      then show ?thesis by (simp del: upt_Suc)
    qed
    finally show ?thesis using cols by simp
  qed
  from ok kin have "\<not> isl (diff_column (columns t) (Suc k))" by (simp add: list_all_iff)
  then have sc: "sub_cells (drop 1 (snd (columns t ! Suc k))) (drop 1 (snd (columns t ! 1))) = Inr (?d k)"
    unfolding diff_column_def by (rule isl_projr)
  have lk: "length (snd (columns t ! Suc k)) = 1025" "length (snd (columns t ! 1)) = 1025"
    using c(2) assms(2,4,5) by (simp_all add: list_all_length)
  have ld: "length (?d k) = 1024" using sub_cells_length [OF sc] lk by simp
  have "cell_sub (drop 1 (snd (columns t ! Suc k)) ! (row - 1)) (drop 1 (snd (columns t ! 1)) ! (row - 1))
      = Inr (?d k ! (row - 1))"
    using sc by (rule sub_cells_nth) (use ld assms(6,7) in simp)
  then have "cell_sub (cell_at t (Suc k) row) (cell_at t 1 row) = Inr ((Missing # ?d k) ! row)"
    using assms(6,7) lk by (simp add: cell_at_def nth_Cons')
  with look pos show ?thesis by blast
qed

theorem subtract_background_values_witness:
  "\<exists>vs. column ((heap0(0 := s700)) 0) (run_name 1) = Some vs \<and>
        columns ((heap0(0 := s700)) 0) ! (3 + 1) = (run_name 1, vs) \<and>
        cell_sub (cell_at t700 (Suc 1) 1) (cell_at t700 1 1) = Inr (vs ! 1)"
  by (rule subtract_background_values [OF iterate_over_runs_700 _ subtract_background_700])
     (simp_all add: t700_def)

text \<open>
  C2: the columns \<^verbatim>\<open>subtract_background\<close> appends are computed from the table the
  process-wide \<^verbatim>\<open>df\<close> is bound to, not from its parameter. Two calls on the same input
  table: with \<^verbatim>\<open>df\<close> bound to the input itself the column \<^verbatim>\<open>Run: 1\<close> holds 5, with
  \<^verbatim>\<open>df\<close> bound to another table it holds 10.
\<close>

theorem subtract_background_reads_global:
  "subtract_background (heap0(0 := small_table)) 0 0 =
     Inr (heap0(0 := small_table\<lparr>columns := columns small_table @
                       [(''Run: 1'', [Missing, Num 5, Num 5])]\<rparr>), 1) \<and>
   subtract_background (heap0(0 := small_table, 1 := other_table)) 1 0 =
     Inr (heap0(0 := small_table\<lparr>columns := columns small_table @
                       [(''Run: 1'', [Missing, Num 10, Num 10])]\<rparr>, 1 := other_table), 1)"
  by (simp add: subtract_background_def iloc_rows1_col_def series_sub_def setitem_def reindex_def
      small_table_def other_table_def run_names_1_2 fun_upd_twist)

text \<open>
  C3, as the code has it: for a folder with \<open>N \<ge> 2\<close> run files and every data row from 1
  to 1024 of its finished table, the columns \<^verbatim>\<open>Run: 1\<close>, ..., \<^verbatim>\<open>Run: N-1\<close> stand at the
  positions \<open>N + 1\<close>, ..., \<open>2N - 1\<close>, the column \<^verbatim>\<open>Mean\<close> after them, and the \<^verbatim>\<open>Mean\<close>
  cell of the row is the arithmetic mean of those of these \<open>N - 1\<close> cells of the row that
  hold a value: missing cells are skipped, and \<^verbatim>\<open>Mean\<close> is missing exactly when all of
  them are missing. Where all \<open>N - 1\<close> cells hold a number, it is their sum divided by
  \<open>N - 1\<close>.
\<close>

theorem mean_of_subtracted_runs:
  assumes "iterate_over_runs fs directory = Inr t0"
    and "length (columns t0) = Suc N" and "2 \<le> N"
    and "process_folder fs h r directory = Inr t"
    and "1 \<le> row" and "row \<le> 1024"
    and "cells = map (\<lambda>k. cell_at t (N + k) row) [1..<N]"
  shows "length (columns t) = 2 * N + 1 \<and>
         map (\<lambda>k. fst (columns t ! (N + k))) [1..<N] = map run_name [1..<N] \<and>
         fst (columns t ! (2 * N)) = ''Mean'' \<and>
         cell_at t (2 * N) row = row_mean cells \<and>
         (cell_at t (2 * N) row = Missing \<longleftrightarrow> list_all (\<lambda>c. c = Missing) cells) \<and>
         (\<not> list_all (\<lambda>c. c = Missing) cells \<longrightarrow>
            cell_at t (2 * N) row = Num (sum_list (nums cells) / real (length (nums cells)))) \<and>
         (list_all is_number cells \<longrightarrow>
            cell_at t (2 * N) row = Num (sum_list (map the_number cells) / real (N - 1)))"
proof -
  from finished_table_cells [OF assms(1-4)] obtain ds where
    t: "t = t0\<lparr>columns := columns t0 @ map (\<lambda>k. (run_name k, Missing # ds k)) [1..<N] @
              [(''Mean'', map (\<lambda>i. row_mean (map (\<lambda>k. (Missing # ds k) ! i) [1..<N])) [0..<1025])]\<rparr>"
    and ds: "\<forall>k\<in>set [1..<N]. diff_column (columns t0) (Suc k) = Inr (ds k) \<and>
              length (ds k) = 1024 \<and> \<not> list_ex is_text (ds k)"
    by blast
  have N1: "1 \<le> N" using assms(3) by simp
  note p = finished_table_positions [OF t assms(2) N1]
  have runs: "columns t ! (N + k) = (run_name k, Missing # ds k)" if "k \<in> set [1..<N]" for k
    using p(3) [of k] that by simp
  have names: "map (\<lambda>k. fst (columns t ! (N + k))) [1..<N] = map run_name [1..<N]"
    using runs by (intro map_cong) simp_all
  have cells: "cells = map (\<lambda>k. (Missing # ds k) ! row) [1..<N]"
    unfolding assms(7) using runs by (intro map_cong) (simp_all add: cell_at_def)
  have "row < 1025" using assms(6) by simp
  then have nth: "map (\<lambda>i. row_mean (map (\<lambda>k. (Missing # ds k) ! i) [1..<N])) [0..<1025] ! row
      = row_mean (map (\<lambda>k. (Missing # ds k) ! row) [1..<N])"
    by (simp del: upt_Suc)
  have "cell_at t (2 * N) row =
      map (\<lambda>i. row_mean (map (\<lambda>k. (Missing # ds k) ! i) [1..<N])) [0..<1025] ! row"
    using p(2) by (simp add: cell_at_def)
  also note nth
  also have "row_mean (map (\<lambda>k. (Missing # ds k) ! row) [1..<N]) = row_mean cells"
    by (simp only: cells)
  finally have mean: "cell_at t (2 * N) row = row_mean cells" .
  have ntc: "\<not> list_ex is_text cells"
  proof -
    have "\<not> is_text ((Missing # ds k) ! row)" if k: "k \<in> set [1..<N]" for k
    proof -
      from ds k have l: "length (ds k) = 1024" and nt: "\<not> list_ex is_text (ds k)" by auto
      have "(Missing # ds k) ! row = ds k ! (row - 1)" using assms(5) by (simp add: nth_Cons')
      moreover have "ds k ! (row - 1) \<in> set (ds k)" using l assms(5,6) by simp
      ultimately show ?thesis using nt by (auto simp: list_ex_iff)
    qed
    then show ?thesis unfolding cells by (auto simp: list_ex_iff)
  qed
  have ne: "cells \<noteq> []" and lc: "length cells = N - 1" using assms(3) cells by simp_all
  have a: "cell_at t (2 * N) row = Missing \<longleftrightarrow> list_all (\<lambda>c. c = Missing) cells"
    unfolding mean using nums_empty_iff [OF ntc] by (simp add: row_mean_def Let_def)
  have b: "cell_at t (2 * N) row = Num (sum_list (nums cells) / real (length (nums cells)))"
    if "\<not> list_all (\<lambda>c. c = Missing) cells"
    unfolding mean using that nums_empty_iff [OF ntc] by (simp add: row_mean_def Let_def)
  have c: "cell_at t (2 * N) row = Num (sum_list (map the_number cells) / real (N - 1))"
    if "list_all is_number cells"
    using row_mean_all_numbers [OF that ne] mean lc by simp
  have m: "fst (columns t ! (2 * N)) = ''Mean''" using p(2) by simp
  show ?thesis
  proof (intro conjI impI)
    show "length (columns t) = 2 * N + 1" by (rule p(1))
    show "map (\<lambda>k. fst (columns t ! (N + k))) [1..<N] = map run_name [1..<N]" by (rule names)
    show "fst (columns t ! (2 * N)) = ''Mean''" by (rule m)
    show "cell_at t (2 * N) row = row_mean cells" by (rule mean)
    show "cell_at t (2 * N) row = Missing \<longleftrightarrow> list_all (\<lambda>c. c = Missing) cells" by (rule a)
    show "cell_at t (2 * N) row = Num (sum_list (nums cells) / real (length (nums cells)))"
      if "\<not> list_all (\<lambda>c. c = Missing) cells"
      using that by (rule b)
    show "cell_at t (2 * N) row = Num (sum_list (map the_number cells) / real (N - 1))"
      if "list_all is_number cells"
      using that by (rule c)
  qed
qed

theorem mean_of_subtracted_runs_witness:
  "length (columns f700) = 2 * 3 + 1 \<and>
   map (\<lambda>k. fst (columns f700 ! (3 + k))) [1..<3] = map run_name [1..<3] \<and>
   fst (columns f700 ! (2 * 3)) = ''Mean'' \<and>
   cell_at f700 (2 * 3) 1 = row_mean [Num 5, Num 2] \<and>
   cell_at f700 (2 * 3) 1 \<noteq> Missing \<and>
   cell_at f700 (2 * 3) 1 = Num (sum_list (nums [Num 5, Num 2]) / real (length (nums [Num 5, Num 2]))) \<and>
   cell_at f700 (2 * 3) 1 = Num (sum_list (map the_number [Num 5, Num 2]) / real (3 - 1)) \<and>
   cell_at f700 (2 * 3) 1 = Num 3.5"
proof -
  have len: "length (columns t700) = Suc 3" by (simp add: t700_def)
  have cells: "[Num 5, Num 2] = map (\<lambda>k. cell_at f700 (3 + k) 1) [1..<3]"
    by (simp add: upt_1_3 cell_at_def f700_def)
  have nums: "list_all is_number [Num 5, Num 2]" by simp
  have some: "\<not> list_all (\<lambda>c. c = Missing) [Num 5, Num 2]" by simp
  have v: "cell_at f700 (2 * 3) 1 = Num 3.5" by (simp add: cell_at_def f700_def)
  have r: "2 \<le> (3::nat)" "(1::nat) \<le> 1" "(1::nat) \<le> 1024" by simp_all
  note w = mean_of_subtracted_runs [OF iterate_over_runs_700 len r(1) process_folder_700 [of heap0 0]
      r(2,3) cells]
  note a = w [THEN conjunct1]
  note b = w [THEN conjunct2, THEN conjunct1]
  note c = w [THEN conjunct2, THEN conjunct2, THEN conjunct1]
  note d = w [THEN conjunct2, THEN conjunct2, THEN conjunct2, THEN conjunct1]
  note e = w [THEN conjunct2, THEN conjunct2, THEN conjunct2, THEN conjunct2, THEN conjunct1]
  note f = w [THEN conjunct2, THEN conjunct2, THEN conjunct2, THEN conjunct2, THEN conjunct2,
      THEN conjunct1, THEN mp, OF some]
  note g = w [THEN conjunct2, THEN conjunct2, THEN conjunct2, THEN conjunct2, THEN conjunct2,
      THEN conjunct2, THEN mp, OF nums]
  have e': "cell_at f700 (2 * 3) 1 \<noteq> Missing" using e some by simp
  from a b c d e' f g v show ?thesis by (intro conjI)
qed

text \<open>
  C3 as stated fails: in the folder whose second run file has two rows only, the third
  data row has no value in \<^verbatim>\<open>Run: 1\<close> and the value 2 in \<^verbatim>\<open>Run: 2\<close>; its \<^verbatim>\<open>Mean\<close>
  is 2, the mean of the one value present, not the arithmetic mean of the two cells.
\<close>

theorem mean_of_subtracted_runs_counterexample:
  "\<exists>t. process_folder fs_short heap0 0 ''700/'' = Inr t \<and>
       fst (columns t ! 4) = ''Run: 1'' \<and> fst (columns t ! 5) = ''Run: 2'' \<and>
       fst (columns t ! 6) = ''Mean'' \<and>
       cell_at t 4 3 = Missing \<and> cell_at t 5 3 = Num 2 \<and> cell_at t 6 3 = Num 2"
  unfolding process_folder_short
  by (simp add: cell_at_def t_short_def row_cells_def row_mean_def del: upt_Suc)

text \<open>
  C4, as the code has it: \<^verbatim>\<open>get_averaged_data_column\<close> appends, for every row, the mean
  of the values present among the cells of the \<^verbatim>\<open>number_of_runs\<close> trailing columns;
  missing cells are skipped, and the \<^verbatim>\<open>Mean\<close> cell is missing exactly when all of these
  cells are missing. This is stated for trailing columns that hold no text, as the
  background-subtracted columns always are.
\<close>

theorem mean_skips_missing:
  assumes "get_averaged_data_column h dataframe (int n) = Inr h'"
    and "rectangular (h dataframe)"
    and "1 \<le> n" and "n \<le> length (columns (h dataframe))"
    and "row < length (index (h dataframe))"
    and "cells = map (\<lambda>c. snd c ! row)
                   (drop (length (columns (h dataframe)) - n) (columns (h dataframe)))"
    and "\<not> list_ex (\<lambda>c. list_ex is_text (snd c))
             (drop (length (columns (h dataframe)) - n) (columns (h dataframe)))"
  shows "\<exists>ms. column (h' dataframe) ''Mean'' = Some ms \<and>
           (ms ! row = Missing \<longleftrightarrow> list_all (\<lambda>c. c = Missing) cells) \<and>
           (\<not> list_all (\<lambda>c. c = Missing) cells \<longrightarrow>
              ms ! row = Num (sum_list (nums cells) / real (length (nums cells))))"
proof -
  let ?d = "h dataframe"
  let ?sel = "drop (length (columns ?d) - n) (columns ?d)"
  let ?ms = "map (\<lambda>i. row_mean (row_cells ?sel i)) [0..<length (index ?d)]"
  have sel: "py_slice_from (- int n) (columns ?d) = ?sel"
    using assms(3,4) by (rule py_slice_from_last)
  have nt: "\<not> list_ex (\<lambda>c. list_ex is_text (snd c)) ?sel" by (rule assms(7))
  have num: "numeric_columns ?sel = ?sel" using nt by (rule numeric_columns_no_text)
  from assms(1) have h': "h' = h(dataframe := ?d\<lparr>columns := upsert ''Mean'' ?ms (columns ?d)\<rparr>)"
    unfolding get_averaged_data_column_eq sel num by simp
  have look: "column (h' dataframe) ''Mean'' = Some ?ms"
    using h' by (simp add: column_def map_of_upsert_same)
  have cells: "row_cells ?sel row = cells"
    using assms(6) by (simp add: row_cells_def)
  have "list_all (\<lambda>c. row < length (snd c)) ?sel"
    using assms(2,5) by (fastforce simp: rectangular_def list_all_iff dest: in_set_dropD)
  with nt have ntc: "\<not> list_ex is_text cells"
    unfolding cells [symmetric] by (rule row_cells_no_text)
  have nth: "?ms ! row = row_mean cells"
    using assms(5) cells by simp
  have a: "?ms ! row = Missing \<longleftrightarrow> list_all (\<lambda>c. c = Missing) cells"
    unfolding nth using nums_empty_iff [OF ntc] by (simp add: row_mean_def Let_def)
  have b: "?ms ! row = Num (sum_list (nums cells) / real (length (nums cells)))"
    if "\<not> list_all (\<lambda>c. c = Missing) cells"
    unfolding nth using that nums_empty_iff [OF ntc] by (simp add: row_mean_def Let_def)
  from look a b show ?thesis by blast
qed

theorem mean_skips_missing_witness:
  "\<exists>ms. column ((heap0(0 := gap_table\<lparr>columns := columns gap_table @
                        [(''Mean'', [Missing, Num 3.5, Num 2])]\<rparr>)) 0) ''Mean'' = Some ms \<and>
        ms ! 2 \<noteq> Missing \<and> ms ! 2 = Num 2"
proof -
  have r: "rectangular ((heap0(0 := gap_table)) 0)" "(1::nat) \<le> 2"
    "2 \<le> length (columns ((heap0(0 := gap_table)) 0))"
    "2 < length (index ((heap0(0 := gap_table)) 0))"
    by (simp_all add: rectangular_def gap_table_def)
  have nt: "\<not> list_ex (\<lambda>c. list_ex is_text (snd c))
      (drop (length (columns ((heap0(0 := gap_table)) 0)) - 2) (columns ((heap0(0 := gap_table)) 0)))"
    by (simp add: gap_table_def)
  from mean_skips_missing [OF gap_table_mean r refl nt]
  show ?thesis by (simp add: gap_table_def)
qed

text \<open>
  C4 as stated fails: in row 2 of the table below \<^verbatim>\<open>Run: 1\<close> is missing and
  \<^verbatim>\<open>Run: 2\<close> is 2; the \<^verbatim>\<open>Mean\<close> cell of the row is 2, not missing.
\<close>

theorem mean_not_missing_counterexample:
  "cell_at gap_table 4 2 = Missing \<and>
   get_averaged_data_column (heap0(0 := gap_table)) 0 2 =
     Inr (heap0(0 := gap_table\<lparr>columns := columns gap_table @
                        [(''Mean'', [Missing, Num 3.5, Num 2])]\<rparr>)) \<and>
   [Missing, Num 3.5, Num 2] ! 2 \<noteq> Missing"
  using gap_table_mean by (simp add: cell_at_def gap_table_def)

text \<open>
  C5: a folder without any run file. The label row always starts with the two cells
  \<^verbatim>\<open>None\<close> and \<^verbatim>\<open>"BG"\<close>, the table has the single column \<^verbatim>\<open>Pixel\<close>, and the row
  assignment raises: \<^verbatim>\<open>iterate_over_runs\<close> returns no table.
\<close>

theorem iterate_over_runs_no_runs:
  "iterate_over_runs fs_no_runs ''700/'' = Inl ValueError"
  by (rule iterate_over_runs_without_runs [of _ _ "[''notes.txt'']"])
     (simp_all add: fs_no_runs_def asc_names)

text \<open>
  C6: for every aggregated table with \<open>N \<ge> 1\<close> run columns, \<^verbatim>\<open>add_run_numbers\<close> returns
  the table with exactly one row added, at row index 0: the rows are labelled 0 to 1024, the
  cells of row 0 are empty, \<^verbatim>\<open>BG\<close>, 1, ..., \<open>N - 1\<close> in column order, and the rows 1 to
  1024 are the 1024 rows of the aggregated table, column names unchanged.
\<close>

theorem add_run_numbers_label_row:
  assumes "add_runs fs directory pixel_frame names = Inr df"
    and "length (columns df) = Suc N" and "1 \<le> N"
  shows "\<exists>t. add_run_numbers df = Inr t \<and>
           index t = map int [0..<1025] \<and>
           map (\<lambda>c. hd (snd c)) (columns t) =
             Missing # Str ''BG'' # map (\<lambda>k. Num (real k)) [1..<N] \<and>
           map (\<lambda>c. (fst c, tl (snd c))) (columns t) = columns df \<and>
           list_all (\<lambda>c. length (snd c) = 1025) (columns t)"
proof -
  have idx: "index df = map int [0..<1024]"
    using add_runs_index [OF assms(1)] by (simp add: pixel_frame_def)
  have rect: "rectangular df"
    using add_runs_rectangular [OF assms(1) rectangular_pixel_frame] .
  from assms(3) obtain m where m: "N = Suc m" by (cases N) auto
  let ?row = "Missing # Str ''BG'' # map (\<lambda>x. Num (real x)) [1..<Suc m]"
  let ?t = "\<lparr>index = map int [0..<Suc 1024],
             columns = map2 (\<lambda>c v. (fst c, v # snd c)) (columns df) ?row\<rparr>"
  have len: "length (columns df) = Suc (Suc m)" using assms(2) m by simp
  have t: "add_run_numbers df = Inr ?t"
    using idx rect len by (rule add_run_numbers_rows)
  have lr: "length (columns df) = length ?row" using len by simp
  have lens: "list_all (\<lambda>c. length (snd c) = 1025) (columns ?t)"
    using rect idx lr unfolding rectangular_def by (auto simp: list_all_length)
  show ?thesis
    using t lens map2_hd_snd [OF lr] map2_tl_snd [OF lr] m
    by (intro exI [of _ ?t]) (simp del: upt_Suc)
qed

theorem add_run_numbers_label_row_witness:
  "\<exists>t. add_run_numbers agg700 = Inr t \<and>
       index t = map int [0..<1025] \<and>
       map (\<lambda>c. hd (snd c)) (columns t) = [Missing, Str ''BG'', Num 1, Num 2] \<and>
       map (\<lambda>c. (fst c, tl (snd c))) (columns t) = columns agg700 \<and>
       list_all (\<lambda>c. length (snd c) = 1025) (columns t)"
  using add_run_numbers_label_row [OF add_runs_700, of 3]
  by (simp add: agg700_def upt_1_3)

text \<open>
  C7: for a folder with \<open>N \<ge> 1\<close> run files, in one pass of the main loop: the table of
  \<^verbatim>\<open>iterate_over_runs\<close> has the column \<^verbatim>\<open>Pixel\<close> and the \<open>N\<close> raw run columns;
  \<^verbatim>\<open>subtract_background\<close> returns the count \<open>N - 1\<close> and appends exactly the columns
  \<^verbatim>\<open>Run: 1\<close>, ..., \<^verbatim>\<open>Run: N-1\<close>, each computed from two raw run columns of the table as
  it was before the call (column \<open>k + 1\<close>, the run file \<open>k + 1\<close>, and column 1), never from
  an appended column; and \<^verbatim>\<open>get_averaged_data_column\<close> returns and appends exactly one
  column \<^verbatim>\<open>Mean\<close>, also when \<open>N = 1\<close>. All the names are distinct.
\<close>

theorem finished_table_columns:
  assumes "listdir fs directory = Inr names" and "distinct names"
    and "files = filter (\<lambda>f. endswith f ''.asc'') names" and "N = length files" and "1 \<le> N"
    and "iterate_over_runs fs directory = Inr t0"
    and "subtract_background (h(r := t0)) r r = Inr (h1, n)"
  shows "map fst (columns t0) = ''Pixel'' # files \<and>
         n = N - 1 \<and>
         map fst (columns (h1 r)) = ''Pixel'' # files @ map run_name [1..<N] \<and>
         (\<forall>k\<in>set [1..<N]. \<exists>vs.
            columns (h1 r) ! (N + k) = (run_name k, Missing # vs) \<and>
            sub_cells (drop 1 (snd (columns t0 ! Suc k))) (drop 1 (snd (columns t0 ! 1))) = Inr vs \<and>
            fst (columns t0 ! Suc k) = files ! k) \<and>
         (\<exists>h2. get_averaged_data_column h1 r (int n) = Inr h2 \<and>
            map fst (columns (h2 r)) = ''Pixel'' # files @ map run_name [1..<N] @ [''Mean''] \<and>
            distinct (map fst (columns (h2 r))))"
proof -
  have e: "experiment_table t0 files"
    using iterate_over_runs_files [OF assms(6,1,2)] assms(3) by simp
  note nm = experiment_table_names [OF e]
  note c = experiment_table_columns [OF e]
  have len: "length (columns t0) = Suc N" using c(1) assms(4) by simp
  let ?d = "\<lambda>k. projr (diff_column (columns t0) (Suc k))"
  let ?runs = "map (\<lambda>k. (run_name k, Missing # ?d k)) [1..<N]"
  have e': "experiment_table ((h(r := t0)) r) files" using e by simp
  have sb: "subtract_background (h(r := t0)) r r =
      (if list_all (\<lambda>k. \<not> isl (diff_column (columns t0) (Suc k))) [1..<N]
       then Inr (h(r := t0\<lparr>columns := columns t0 @ ?runs\<rparr>), N - 1) else Inl TypeError)"
    using subtract_background_shared [of "h(r := t0)" r, OF e'] assms(4) by simp
  with assms(7) have ok: "list_all (\<lambda>k. \<not> isl (diff_column (columns t0) (Suc k))) [1..<N]"
    and h1: "h1 = h(r := t0\<lparr>columns := columns t0 @ ?runs\<rparr>)" and n: "n = N - 1"
    by (auto split: if_splits)
  have cols1: "columns (h1 r) = columns t0 @ ?runs" using h1 by simp
  have names1: "map fst (columns (h1 r)) = ''Pixel'' # files @ map run_name [1..<N]"
    unfolding cols1 using nm(1) by (simp add: comp_def)
  have src: "\<exists>vs. columns (h1 r) ! (N + k) = (run_name k, Missing # vs) \<and>
      sub_cells (drop 1 (snd (columns t0 ! Suc k))) (drop 1 (snd (columns t0 ! 1))) = Inr vs \<and>
      fst (columns t0 ! Suc k) = files ! k" if k: "k \<in> set [1..<N]" for k
  proof -
    have k1: "1 \<le> k" "k < N" using k by simp_all
    have "(columns t0 @ ?runs) ! (N + k) = ?runs ! (k - 1)"
      using len k1 by (simp add: nth_append)
    also have "\<dots> = (run_name k, Missing # ?d k)"
    proof -
      have "k - 1 < length [1..<N]" "[1..<N] ! (k - 1) = k" using k1 by simp_all
      then show ?thesis by (simp del: upt_Suc)
    qed
    finally have a: "columns (h1 r) ! (N + k) = (run_name k, Missing # ?d k)"
      using cols1 by simp
    from ok k have "\<not> isl (diff_column (columns t0) (Suc k))" by (simp add: list_all_iff)
    then have b: "sub_cells (drop 1 (snd (columns t0 ! Suc k))) (drop 1 (snd (columns t0 ! 1))) = Inr (?d k)"
      unfolding diff_column_def by (rule isl_projr)
    have "map fst (columns t0) ! Suc k = (''Pixel'' # files) ! Suc k" using nm(1) by simp
    then have c: "fst (columns t0 ! Suc k) = files ! k" using len k1 by simp
    from a b c show ?thesis by blast
  qed
  have avg: "\<exists>h2. get_averaged_data_column h1 r (int n) = Inr h2 \<and>
      map fst (columns (h2 r)) = ''Pixel'' # files @ map run_name [1..<N] @ [''Mean''] \<and>
      distinct (map fst (columns (h2 r)))"
  proof -
    obtain h2 where g: "get_averaged_data_column h1 r (int n) = Inr h2"
      unfolding get_averaged_data_column_eq by blast
    have "''Mean'' \<notin> set (map fst (columns (h1 r)))"
      unfolding names1 using nm(4) run_name_not_Mean [THEN not_sym] by auto
    then have fresh: "''Mean'' \<notin> fst ` set (columns (h1 r))" by simp
    from get_averaged_data_column_appends [OF g fresh] obtain ms where
      "h2 = h1(r := (h1 r)\<lparr>columns := columns (h1 r) @ [(''Mean'', ms)]\<rparr>)" by blast
    then have names2: "map fst (columns (h2 r)) = ''Pixel'' # files @ map run_name [1..<N] @ [''Mean'']"
      using names1 by simp
    have "distinct (''Pixel'' # files @ map run_name [1..<N] @ [''Mean''])"
      using nm(2,3,4) run_name_not_Mean [THEN not_sym] run_name_not_Pixel [THEN not_sym]
      by (auto simp: distinct_run_names)
    with names2 have "distinct (map fst (columns (h2 r)))" by simp
    with g names2 show ?thesis by (intro exI [of _ h2] conjI)
  qed
  show ?thesis
  proof (intro conjI ballI)
    show "map fst (columns t0) = ''Pixel'' # files" by (rule nm(1))
    show "n = N - 1" by (rule n)
    show "map fst (columns (h1 r)) = ''Pixel'' # files @ map run_name [1..<N]" by (rule names1)
    show "\<exists>vs. columns (h1 r) ! (N + k) = (run_name k, Missing # vs) \<and>
      sub_cells (drop 1 (snd (columns t0 ! Suc k))) (drop 1 (snd (columns t0 ! 1))) = Inr vs \<and>
      fst (columns t0 ! Suc k) = files ! k" if "k \<in> set [1..<N]" for k
      using that by (rule src)
    show "\<exists>h2. get_averaged_data_column h1 r (int n) = Inr h2 \<and>
      map fst (columns (h2 r)) = ''Pixel'' # files @ map run_name [1..<N] @ [''Mean''] \<and>
      distinct (map fst (columns (h2 r)))"
      by (rule avg)
  qed
qed

theorem finished_table_columns_witness:
  "(map fst (columns t700) = [''Pixel'', ''run1.asc'', ''run2.asc'', ''run3.asc''] \<and>
    (2::nat) = 3 - 1 \<and>
    map fst (columns s700) =
      [''Pixel'', ''run1.asc'', ''run2.asc'', ''run3.asc'', ''Run: 1'', ''Run: 2''] \<and>
    (\<exists>h2. get_averaged_data_column (heap0(0 := s700)) 0 (int 2) = Inr h2 \<and>
       map fst (columns (h2 0)) =
         [''Pixel'', ''run1.asc'', ''run2.asc'', ''run3.asc'', ''Run: 1'', ''Run: 2'', ''Mean''] \<and>
       distinct (map fst (columns (h2 0))))) \<and>
   (map fst (columns one_run_table) = [''Pixel'', ''run1.asc''] \<and>
    (0::nat) = 1 - 1 \<and>
    (\<exists>h2. get_averaged_data_column (heap0(0 := one_run_table)) 0 (int 0) = Inr h2 \<and>
       map fst (columns (h2 0)) = [''Pixel'', ''run1.asc'', ''Mean''] \<and>
       distinct (map fst (columns (h2 0)))))"
proof -
  have l: "listdir fs700 ''700/'' = Inr [''run1.asc'', ''run2.asc'', ''run3.asc'']"
    by (simp add: fs700_def)
  have d: "distinct [''run1.asc'', ''run2.asc'', ''run3.asc'']" by simp
  have f: "[''run1.asc'', ''run2.asc'', ''run3.asc''] =
      filter (\<lambda>f. endswith f ''.asc'') [''run1.asc'', ''run2.asc'', ''run3.asc'']"
    by (simp add: asc_names)
  have N: "3 = length [''run1.asc'', ''run2.asc'', ''run3.asc'']" "1 \<le> (3::nat)" by simp_all
  note w = finished_table_columns [OF l d f N iterate_over_runs_700
      subtract_background_700 [of heap0 0]]
  note a = w [THEN conjunct1]
  note b = w [THEN conjunct2, THEN conjunct1]
  note c = w [THEN conjunct2, THEN conjunct2, THEN conjunct1]
  note e = w [THEN conjunct2, THEN conjunct2, THEN conjunct2, THEN conjunct2]
  have three: "map fst (columns t700) = [''Pixel'', ''run1.asc'', ''run2.asc'', ''run3.asc''] \<and>
    (2::nat) = 3 - 1 \<and>
    map fst (columns s700) =
      [''Pixel'', ''run1.asc'', ''run2.asc'', ''run3.asc'', ''Run: 1'', ''Run: 2''] \<and>
    (\<exists>h2. get_averaged_data_column (heap0(0 := s700)) 0 (int 2) = Inr h2 \<and>
       map fst (columns (h2 0)) =
         [''Pixel'', ''run1.asc'', ''run2.asc'', ''run3.asc'', ''Run: 1'', ''Run: 2'', ''Mean''] \<and>
       distinct (map fst (columns (h2 0))))"
    using a b c e by (simp add: upt_1_3 run_names_1_2)
  have l1: "listdir fs_one_run ''700/'' = Inr [''notes.txt'', ''run1.asc'']"
    by (simp add: fs_one_run_def)
  have d1: "distinct [''notes.txt'', ''run1.asc'']" by simp
  have f1: "[''run1.asc''] = filter (\<lambda>f. endswith f ''.asc'') [''notes.txt'', ''run1.asc'']"
    by (simp add: asc_names)
  have N1: "1 = length [''run1.asc'']" "1 \<le> (1::nat)" by simp_all
  have len1: "length (columns one_run_table) = 2" by (simp add: one_run_table_def)
  note w1 = finished_table_columns [OF l1 d1 f1 N1 iterate_over_runs_one_run
      subtract_background_one_run [OF iterate_over_runs_one_run len1, of heap0 0]]
  note a1 = w1 [THEN conjunct1]
  note b1 = w1 [THEN conjunct2, THEN conjunct1]
  note e1 = w1 [THEN conjunct2, THEN conjunct2, THEN conjunct2, THEN conjunct2]
  have one: "map fst (columns one_run_table) = [''Pixel'', ''run1.asc''] \<and>
    (0::nat) = 1 - 1 \<and>
    (\<exists>h2. get_averaged_data_column (heap0(0 := one_run_table)) 0 (int 0) = Inr h2 \<and>
       map fst (columns (h2 0)) = [''Pixel'', ''run1.asc'', ''Mean''] \<and>
       distinct (map fst (columns (h2 0))))"
    using a1 b1 e1 by simp
  from three one show ?thesis by (rule conjI)
qed

text \<open>
  C8: the table \<^verbatim>\<open>iterate_over_runs\<close> returns has the rows 0 to 1024 (1025 rows), every
  column has 1025 cells, and its first column is \<^verbatim>\<open>Pixel\<close>, holding 1 to 1024 in the
  rows 1 to 1024. \<^verbatim>\<open>subtract_background\<close> (called as in the main loop) and
  \<^verbatim>\<open>get_averaged_data_column\<close> (with any count) keep all of this and only append columns
  after the existing ones, which stay as they are.
\<close>

theorem table_invariant_preserved:
  assumes "iterate_over_runs fs directory = Inr t0"
  shows "table_invariant t0 \<and>
         (\<forall>h1 n. subtract_background (h(r := t0)) r r = Inr (h1, n) \<longrightarrow>
            table_invariant (h1 r) \<and> (\<exists>new. columns (h1 r) = columns t0 @ new) \<and>
            (\<forall>m h2. get_averaged_data_column h1 r m = Inr h2 \<longrightarrow>
               table_invariant (h2 r) \<and> (\<exists>new. columns (h2 r) = columns (h1 r) @ new)))"
proof -
  from iterate_over_runs_experiment_table [OF assms] obtain files where
    e: "experiment_table t0 files" by blast
  have inv0: "table_invariant t0" using e by (rule experiment_table_invariant)
  note c = experiment_table_columns [OF e]
  note nm = experiment_table_names [OF e]
  let ?N = "length files"
  let ?d = "\<lambda>k. projr (diff_column (columns t0) (Suc k))"
  let ?runs = "map (\<lambda>k. (run_name k, Missing # ?d k)) [1..<?N]"
  have e': "experiment_table ((h(r := t0)) r) files" using e by simp
  have sb: "subtract_background (h(r := t0)) r r =
      (if list_all (\<lambda>k. \<not> isl (diff_column (columns t0) (Suc k))) [1..<?N]
       then Inr (h(r := t0\<lparr>columns := columns t0 @ ?runs\<rparr>), ?N - 1) else Inl TypeError)"
    using subtract_background_shared [of "h(r := t0)" r, OF e'] by simp
  have step: "table_invariant (h1 r) \<and> (\<exists>new. columns (h1 r) = columns t0 @ new) \<and>
      (\<forall>m h2. get_averaged_data_column h1 r m = Inr h2 \<longrightarrow>
         table_invariant (h2 r) \<and> (\<exists>new. columns (h2 r) = columns (h1 r) @ new))"
    if s: "subtract_background (h(r := t0)) r r = Inr (h1, n)" for h1 n
  proof -
    from s sb have ok: "list_all (\<lambda>k. \<not> isl (diff_column (columns t0) (Suc k))) [1..<?N]"
      and h1: "h1 = h(r := t0\<lparr>columns := columns t0 @ ?runs\<rparr>)"
      by (auto split: if_splits)
    have lens: "list_all (\<lambda>c. length (snd c) = 1025) ?runs"
    proof -
      have "length (?d k) = 1024" if k: "k \<in> set [1..<?N]" for k
      proof -
        from ok k have "\<not> isl (diff_column (columns t0) (Suc k))" by (simp add: list_all_iff)
        then have sc: "sub_cells (drop 1 (snd (columns t0 ! Suc k))) (drop 1 (snd (columns t0 ! 1)))
            = Inr (?d k)"
          unfolding diff_column_def by (rule isl_projr)
        have "Suc k < length (columns t0)" "1 < length (columns t0)" using c(1) k by auto
        then have "length (snd (columns t0 ! Suc k)) = 1025" "length (snd (columns t0 ! 1)) = 1025"
          using c(2) by (simp_all add: list_all_length)
        with sub_cells_length [OF sc] show ?thesis by simp
      qed
      then show ?thesis by (simp add: list_all_iff)
    qed
    have cols1: "columns (h1 r) = columns t0 @ ?runs" using h1 by simp
    have inv1: "table_invariant (h1 r)"
      using table_invariant_append [OF inv0 lens] h1 by simp
    have names1: "map fst (columns (h1 r)) = ''Pixel'' # files @ map run_name [1..<?N]"
      unfolding cols1 using nm(1) by (simp add: comp_def)
    have avg: "table_invariant (h2 r) \<and> (\<exists>new. columns (h2 r) = columns (h1 r) @ new)"
      if g: "get_averaged_data_column h1 r m = Inr h2" for m h2
    proof -
      have "''Mean'' \<notin> set (map fst (columns (h1 r)))"
        unfolding names1 using nm(4) run_name_not_Mean [THEN not_sym] by auto
      then have fresh: "''Mean'' \<notin> fst ` set (columns (h1 r))" by simp
      from get_averaged_data_column_appends [OF g fresh] obtain ms where
        ms: "length ms = length (index (h1 r))"
        and h2: "h2 = h1(r := (h1 r)\<lparr>columns := columns (h1 r) @ [(''Mean'', ms)]\<rparr>)"
        by blast
      have "length ms = 1025" using ms inv1 by (simp add: table_invariant_def)
      then have "list_all (\<lambda>c. length (snd c) = 1025) [(''Mean'', ms)]" by simp
      from table_invariant_append [OF inv1 this] h2 show ?thesis by simp
    qed
    from inv1 cols1 avg show ?thesis by blast
  qed
  from inv0 step show ?thesis by blast
qed

theorem table_invariant_preserved_witness:
  "table_invariant t700 \<and> table_invariant s700 \<and> (\<exists>new. columns s700 = columns t700 @ new) \<and>
   table_invariant f700 \<and> (\<exists>new. columns f700 = columns s700 @ new)"
proof -
  note w = table_invariant_preserved [OF iterate_over_runs_700, of heap0 0]
  note a = w [THEN conjunct1]
  note s = w [THEN conjunct2, THEN spec, THEN spec, THEN mp, OF subtract_background_700 [of heap0 0]]
  note g = s [THEN conjunct2, THEN conjunct2, THEN spec, THEN spec, THEN mp,
      OF get_averaged_data_column_700 [of heap0 0]]
  from a s [THEN conjunct1] s [THEN conjunct2, THEN conjunct1] g [THEN conjunct1] g [THEN conjunct2]
  show ?thesis by simp
qed




end
